theory Spec2Isabelle
  imports
    Main
    "HOL-Library.Sublist"
    "HOL-Library.Char_ord"
    "HOL-Library.List_Lexorder"
    "HOL-Library.Option_ord"
begin

section \<open>The backup document\<close>

text \<open>
  The program of \<^verbatim>\<open>humane_cli.py\<close> reads a JSON backup into Python dictionaries and
  works on them with \<^verbatim>\<open>d.get(k, default)\<close>, \<^verbatim>\<open>d.get(k)\<close> and \<^verbatim>\<open>d[k]\<close>. What these do
  depends on three states of a key: it is absent, it is present with JSON \<^verbatim>\<open>null\<close>
  (Python \<^verbatim>\<open>None\<close>), or it is present with a value. A field of a habit or of an entry
  is modelled with exactly these three states. A value that is present and not null has
  the type the data model gives it (identifiers, names, categories, dates and timestamps
  are strings, targets and values are integers); integers are Python's unbounded ones.
  A string is a list of characters, and a character is a code point from 0 to 255
  (Latin-1); strings are compared by code point, as Python compares them.
\<close>

datatype 'a field = Absent | Null | Val 'a

datatype error = ValueError | KeyError | TypeError | AttributeError | OSError

text \<open>
  A Python value read from a field is \<open>None\<close> (Python's \<^verbatim>\<open>None\<close>) or \<open>Some v\<close>.
  \<open>get_or f d\<close> is \<^verbatim>\<open>x.get(k, d)\<close>, \<open>get_none f\<close> is \<^verbatim>\<open>x.get(k)\<close>, \<open>subscript f\<close> is
  \<^verbatim>\<open>x[k]\<close>, which raises \<^verbatim>\<open>KeyError\<close> on an absent key, and \<open>store v\<close> is the field that
  a dictionary display \<^verbatim>\<open>{k: v}\<close> creates.
\<close>

fun get_or :: "'a field \<Rightarrow> 'a \<Rightarrow> 'a option" where
  "get_or Absent d = Some d"
| "get_or Null d = None"
| "get_or (Val v) d = Some v"

fun get_none :: "'a field \<Rightarrow> 'a option" where
  "get_none Absent = None"
| "get_none Null = None"
| "get_none (Val v) = Some v"

fun subscript :: "'a field \<Rightarrow> error + 'a option" where
  "subscript Absent = Inl KeyError"
| "subscript Null = Inr None"
| "subscript (Val v) = Inr (Some v)"

fun store :: "'a option \<Rightarrow> 'a field" where
  "store None = Null"
| "store (Some v) = Val v"

text \<open>
  Keys that the program never reads are kept as a list of pairs of a key and an opaque
  JSON value of type \<open>'j\<close>.
\<close>

record 'j habit =
  h_id :: "string field"
  h_name :: "string field"
  h_category :: "string field"
  h_targetPerWeek :: "int field"
  h_extra :: "(string \<times> 'j) list"

record 'j entry =
  e_id :: "string field"
  e_habitId :: "string field"
  e_date :: "string field"
  e_value :: "int field"
  e_createdAt :: "string field"
  e_extra :: "(string \<times> 'j) list"

text \<open>
  The document itself: the two collections, each of which may be absent
  (\<^verbatim>\<open>self.data.get("habits", [])\<close>), and every other top-level key.
\<close>

record 'j snapshot =
  s_habits :: "'j habit list option"
  s_entries :: "'j entry list option"
  s_other :: "(string \<times> 'j) list"

definition data_habits :: "'j snapshot \<Rightarrow> 'j habit list" where
  "data_habits d = (case s_habits d of None \<Rightarrow> [] | Some hs \<Rightarrow> hs)"

definition data_entries :: "'j snapshot \<Rightarrow> 'j entry list" where
  "data_entries d = (case s_entries d of None \<Rightarrow> [] | Some es \<Rightarrow> es)"

section \<open>The class HumaneData\<close>

text \<open>
  An object holds the document, the index of habits by \<^verbatim>\<open>h["id"]\<close> (a Python value, so
  \<open>None\<close> is a possible key) and the list of entries.
\<close>

record 'j HumaneData =
  data :: "'j snapshot"
  habits :: "string option \<rightharpoonup> 'j habit"
  entries :: "'j entry list"

text \<open>
  \<^verbatim>\<open>{h["id"]: h for h in self.data.get("habits", [])}\<close>: a later habit replaces an earlier
  one under the same key, and a habit without the key raises.
\<close>

fun build_index ::
  "(string option \<rightharpoonup> 'j habit) \<Rightarrow> 'j habit list \<Rightarrow> error + (string option \<rightharpoonup> 'j habit)" where
  "build_index m [] = Inr m"
| "build_index m (h # hs) =
     (case subscript (h_id h) of
        Inl err \<Rightarrow> Inl err
      | Inr k \<Rightarrow> build_index (m(k \<mapsto> h)) hs)"

text \<open>
  The constructor. Reading and parsing a file is not part of the program: \<open>load_file\<close>
  stands for \<^verbatim>\<open>json.load(open(filepath))\<close> and gives the parsed document or the error
  raised. \<^verbatim>\<open>elif filepath:\<close> is false for \<^verbatim>\<open>None\<close> and for the empty string.
\<close>

definition HumaneData_init ::
  "(string \<Rightarrow> error + 'j snapshot) \<Rightarrow> string option \<Rightarrow> 'j snapshot option
     \<Rightarrow> error + 'j HumaneData" where
  "HumaneData_init load_file filepath dat =
     (case (case dat of
              Some d \<Rightarrow> Inr d
            | None \<Rightarrow>
                (case filepath of
                   None \<Rightarrow> Inl ValueError
                 | Some p \<Rightarrow> if p \<noteq> [] then load_file p else Inl ValueError)) of
        Inl err \<Rightarrow> Inl err
      | Inr d \<Rightarrow>
          (case build_index Map.empty (data_habits d) of
             Inl err \<Rightarrow> Inl err
           | Inr idx \<Rightarrow> Inr \<lparr>data = d, habits = idx, entries = data_entries d\<rparr>))"

subsection \<open>Queries\<close>

text \<open>
  A \<^verbatim>\<open>defaultdict(list)\<close> keeps its keys in the order of their first use;
  \<open>dd_append k v\<close> is \<^verbatim>\<open>d[k].append(v)\<close> on it.
\<close>

fun dd_append :: "'k \<Rightarrow> 'v \<Rightarrow> ('k \<times> 'v list) list \<Rightarrow> ('k \<times> 'v list) list" where
  "dd_append k v [] = [(k, [v])]"
| "dd_append k v ((k', vs) # rest) =
     (if k = k' then (k', vs @ [v]) # rest else (k', vs) # dd_append k v rest)"

definition get_categories :: "'j HumaneData \<Rightarrow> (string option \<times> 'j habit list) list" where
  "get_categories self =
     foldl (\<lambda>categories habit.
              dd_append (get_or (h_category habit) ''uncategorized'') habit categories)
       [] (data_habits (data self))"

definition get_habits_by_category :: "'j HumaneData \<Rightarrow> string \<Rightarrow> 'j habit list" where
  "get_habits_by_category self category =
     filter (\<lambda>h. get_none (h_category h) = Some category) (data_habits (data self))"

definition get_entries_for_habit :: "'j HumaneData \<Rightarrow> string \<Rightarrow> 'j entry list" where
  "get_entries_for_habit self habit_id =
     filter (\<lambda>e. get_none (e_habitId e) = Some habit_id) (entries self)"

text \<open>
  \<^verbatim>\<open>habit.get("name", "Unknown") if habit else "Unknown"\<close>: a dictionary is false only
  when it has no key, and then the first branch would give \<^verbatim>\<open>"Unknown"\<close> as well.
\<close>

definition get_habit_name :: "'j HumaneData \<Rightarrow> string \<Rightarrow> string option" where
  "get_habit_name self habit_id =
     (case habits self (Some habit_id) of
        None \<Rightarrow> Some ''Unknown''
      | Some habit \<Rightarrow> get_or (h_name habit) ''Unknown'')"

text \<open>
  \<^verbatim>\<open>sorted(categories.items())\<close> compares the pairs by their keys, which differ from
  each other in a dictionary. Two or more pairs are compared at least once each, and
  comparing \<^verbatim>\<open>None\<close> with a string raises \<^verbatim>\<open>TypeError\<close>.
\<close>

definition py_sorted_items ::
  "(string option \<times> 'v) list \<Rightarrow> error + (string option \<times> 'v) list" where
  "py_sorted_items items =
     (if 2 \<le> length items \<and> None \<in> set (map fst items) then Inl TypeError
      else Inr (sort_key fst items))"

text \<open>\<^verbatim>\<open>sum(...)\<close> starts from 0 and adds from the left; adding \<^verbatim>\<open>None\<close> raises.\<close>

fun py_sum :: "int \<Rightarrow> int option list \<Rightarrow> error + int" where
  "py_sum acc [] = Inr acc"
| "py_sum acc (None # vs) = Inl TypeError"
| "py_sum acc (Some v # vs) = py_sum (acc + v) vs"

fun stats_loop ::
  "(string option \<times> 'j habit list) list \<Rightarrow> error + (string option \<times> nat \<times> int) list" where
  "stats_loop [] = Inr []"
| "stats_loop ((cat, hs) # rest) =
     (case py_sum 0 (map (\<lambda>h. get_or (h_targetPerWeek h) 0) hs) of
        Inl err \<Rightarrow> Inl err
      | Inr total_target \<Rightarrow>
          (case stats_loop rest of
             Inl err \<Rightarrow> Inl err
           | Inr stats \<Rightarrow> Inr ((cat, length hs, total_target) # stats)))"

definition get_category_stats ::
  "'j HumaneData \<Rightarrow> error + (string option \<times> nat \<times> int) list" where
  "get_category_stats self =
     (case py_sorted_items (get_categories self) of
        Inl err \<Rightarrow> Inl err
      | Inr items \<Rightarrow> stats_loop items)"

subsection \<open>Merging habits\<close>

text \<open>
  \<^verbatim>\<open>entry.get("habitId") == target_habit_id or entry.get("habitId") in all_source_ids\<close>,
  where the identifiers given by the caller are strings.
\<close>

definition involved :: "string \<Rightarrow> string set \<Rightarrow> 'j entry \<Rightarrow> bool" where
  "involved target_habit_id all_source_ids e =
     (case get_none (e_habitId e) of
        None \<Rightarrow> False
      | Some i \<Rightarrow> i = target_habit_id \<or> i \<in> all_source_ids)"

text \<open>\<^verbatim>\<open>entry.get("date", "")[:10]\<close>; \<^verbatim>\<open>None\<close> cannot be sliced.\<close>

definition date_key :: "'j entry \<Rightarrow> error + string" where
  "date_key e =
     (case get_or (e_date e) [] of
        None \<Rightarrow> Inl TypeError
      | Some s \<Rightarrow> Inr (take 10 s))"

fun group_by_date ::
  "string \<Rightarrow> string set \<Rightarrow> (string \<times> 'j entry list) list \<Rightarrow> 'j entry list
     \<Rightarrow> error + (string \<times> 'j entry list) list" where
  "group_by_date t A entries_by_date [] = Inr entries_by_date"
| "group_by_date t A entries_by_date (e # es) =
     (if involved t A e then
        (case date_key e of
           Inl err \<Rightarrow> Inl err
         | Inr date \<Rightarrow> group_by_date t A (dd_append date e entries_by_date) es)
      else group_by_date t A entries_by_date es)"

text \<open>
  \<^verbatim>\<open>max(day_entries, key=lambda e: e.get("value", 0))\<close> keeps the first item and its
  key, and replaces them when the key of a later item is greater (\<^verbatim>\<open>>\<close>). Comparing
  with \<^verbatim>\<open>None\<close> raises \<^verbatim>\<open>TypeError\<close>; \<^verbatim>\<open>max\<close> of no item raises \<^verbatim>\<open>ValueError\<close>.
\<close>

definition value_key :: "'j entry \<Rightarrow> int option" where
  "value_key e = get_or (e_value e) 0"

fun max_scan :: "'j entry \<Rightarrow> 'j entry list \<Rightarrow> error + 'j entry" where
  "max_scan best [] = Inr best"
| "max_scan best (e # es) =
     (case (value_key e, value_key best) of
        (Some v, Some b) \<Rightarrow> if v > b then max_scan e es else max_scan best es
      | _ \<Rightarrow> Inl TypeError)"

definition py_max :: "'j entry list \<Rightarrow> error + 'j entry" where
  "py_max day_entries =
     (case day_entries of [] \<Rightarrow> Inl ValueError | e # es \<Rightarrow> max_scan e es)"

definition merged_entry :: "string \<Rightarrow> string \<Rightarrow> string option \<Rightarrow> 'j entry \<Rightarrow> 'j entry" where
  "merged_entry target_habit_id date ident max_entry =
     \<lparr>e_id = store ident,
      e_habitId = Val target_habit_id,
      e_date = Val date,
      e_value = store (get_or (e_value max_entry) 0),
      e_createdAt = store (get_or (e_createdAt max_entry) []),
      e_extra = []\<rparr>"

fun merge_groups ::
  "string \<Rightarrow> (string \<times> 'j entry list) list \<Rightarrow> error + 'j entry list" where
  "merge_groups t [] = Inr []"
| "merge_groups t ((date, day_entries) # rest) =
     (case py_max day_entries of
        Inl err \<Rightarrow> Inl err
      | Inr max_entry \<Rightarrow>
          (case subscript (e_id max_entry) of
             Inl err \<Rightarrow> Inl err
           | Inr ident \<Rightarrow>
               (case merge_groups t rest of
                  Inl err \<Rightarrow> Inl err
                | Inr merged_entries \<Rightarrow>
                    Inr (merged_entry t date ident max_entry # merged_entries))))"

text \<open>\<^verbatim>\<open>[h for h in ... if h["id"] not in all_source_ids]\<close>\<close>

fun keep_habits :: "string set \<Rightarrow> 'j habit list \<Rightarrow> error + 'j habit list" where
  "keep_habits A [] = Inr []"
| "keep_habits A (h # hs) =
     (case subscript (h_id h) of
        Inl err \<Rightarrow> Inl err
      | Inr ident \<Rightarrow>
          (case keep_habits A hs of
             Inl err \<Rightarrow> Inl err
           | Inr new_habits \<Rightarrow>
               Inr (if (case ident of None \<Rightarrow> False | Some i \<Rightarrow> i \<in> A) then new_habits
                    else h # new_habits)))"

definition effective_sources :: "string \<Rightarrow> string list \<Rightarrow> string set" where
  "effective_sources target_habit_id source_habit_ids =
     set source_habit_ids - {target_habit_id}"

definition merge_habits ::
  "'j HumaneData \<Rightarrow> string \<Rightarrow> string list \<Rightarrow> error + 'j snapshot" where
  "merge_habits self target_habit_id source_habit_ids =
     (let all_source_ids = effective_sources target_habit_id source_habit_ids in
      case group_by_date target_habit_id all_source_ids [] (entries self) of
        Inl err \<Rightarrow> Inl err
      | Inr entries_by_date \<Rightarrow>
          (case merge_groups target_habit_id entries_by_date of
             Inl err \<Rightarrow> Inl err
           | Inr merged_entries \<Rightarrow>
               (let other_entries =
                      filter (\<lambda>e. \<not> involved target_habit_id all_source_ids e) (entries self)
                in case keep_habits all_source_ids (data_habits (data self)) of
                     Inl err \<Rightarrow> Inl err
                   | Inr new_habits \<Rightarrow>
                       Inr ((data self)\<lparr>s_habits := Some new_habits,
                                        s_entries := Some (other_entries @ merged_entries)\<rparr>))))"

subsection \<open>Searching habits by name\<close>

text \<open>
  \<^verbatim>\<open>str.lower\<close> on the code points 0 to 255: the capital letters are A to Z (65 to 90),
  U+00C0 to U+00D6 (192 to 214) and U+00D8 to U+00DE (216 to 222), the lower-case letter
  of each is 32 code points higher, and every other character is left as it is; so
  U+00DF, the sharp s, is left as it is. \<open>contains p s\<close> is Python's \<^verbatim>\<open>p in s\<close> on
  strings.
\<close>

definition lower_char :: "char \<Rightarrow> char" where
  "lower_char c =
     (let n = (of_char c :: nat) in
      if (65 \<le> n \<and> n \<le> 90) \<or> (192 \<le> n \<and> n \<le> 214) \<or> (216 \<le> n \<and> n \<le> 222)
      then char_of (n + 32) else c)"

definition lower :: "string \<Rightarrow> string" where
  "lower s = map lower_char s"

fun contains :: "string \<Rightarrow> string \<Rightarrow> bool" where
  "contains p [] = (p = [])"
| "contains p (c # cs) = (prefix p (c # cs) \<or> contains p cs)"

fun find_loop :: "string \<Rightarrow> 'j habit list \<Rightarrow> error + 'j habit list" where
  "find_loop pattern_lower [] = Inr []"
| "find_loop pattern_lower (h # hs) =
     (case get_or (h_name h) [] of
        None \<Rightarrow> Inl AttributeError
      | Some name \<Rightarrow>
          (case find_loop pattern_lower hs of
             Inl err \<Rightarrow> Inl err
           | Inr found \<Rightarrow>
               Inr (if contains pattern_lower (lower name) then h # found else found)))"

definition find_habits_by_name :: "'j HumaneData \<Rightarrow> string \<Rightarrow> error + 'j habit list" where
  "find_habits_by_name humane_data pattern =
     find_loop (lower pattern) (data_habits (data humane_data))"

subsection \<open>The data of the tests\<close>

text \<open>
  \<^verbatim>\<open>MERGE_TEST_DATA\<close> of \<^verbatim>\<open>test_humane_cli.py\<close>, the fixture \<^verbatim>\<open>merge_data\<close> built from
  it, and the document that merging \<^verbatim>\<open>tgu-l\<close> and \<^verbatim>\<open>tgu-r\<close> into \<^verbatim>\<open>tgu\<close> gives.
\<close>

definition mk_habit :: "string \<Rightarrow> string \<Rightarrow> string \<Rightarrow> int \<Rightarrow> int habit" where
  "mk_habit i n c tpw =
     \<lparr>h_id = Val i, h_name = Val n, h_category = Val c, h_targetPerWeek = Val tpw, h_extra = []\<rparr>"

definition mk_entry :: "string \<Rightarrow> string \<Rightarrow> string \<Rightarrow> int \<Rightarrow> string \<Rightarrow> int entry" where
  "mk_entry i h d v c =
     \<lparr>e_id = Val i, e_habitId = Val h, e_date = Val d, e_value = Val v, e_createdAt = Val c,
      e_extra = []\<rparr>"

definition MERGE_TEST_DATA :: "int snapshot" where
  "MERGE_TEST_DATA =
     \<lparr>s_habits = Some
        [mk_habit ''tgu'' ''TGU'' ''fitness'' 3,
         mk_habit ''tgu-l'' ''TGU-L'' ''fitness'' 2,
         mk_habit ''tgu-r'' ''TGU-R'' ''fitness'' 2,
         mk_habit ''kb'' ''Kettlebell'' ''fitness'' 5],
      s_entries = Some
        [mk_entry ''e1'' ''tgu'' ''2025-11-28'' 5 ''2025-11-28T10:00:00Z'',
         mk_entry ''e2'' ''tgu'' ''2025-11-27'' 3 ''2025-11-27T10:00:00Z'',
         mk_entry ''e3'' ''tgu-l'' ''2025-11-28'' 8 ''2025-11-28T11:00:00Z'',
         mk_entry ''e4'' ''tgu-l'' ''2025-11-26'' 4 ''2025-11-26T10:00:00Z'',
         mk_entry ''e5'' ''tgu-r'' ''2025-11-28'' 6 ''2025-11-28T12:00:00Z'',
         mk_entry ''e6'' ''tgu-r'' ''2025-11-25'' 7 ''2025-11-25T10:00:00Z'',
         mk_entry ''e7'' ''kb'' ''2025-11-28'' 10 ''2025-11-28T09:00:00Z''],
      s_other = [(''version'', 1)]\<rparr>"

definition merge_data :: "int HumaneData" where
  "merge_data =
     \<lparr>data = MERGE_TEST_DATA,
      habits = [Some ''tgu'' \<mapsto> mk_habit ''tgu'' ''TGU'' ''fitness'' 3,
                Some ''tgu-l'' \<mapsto> mk_habit ''tgu-l'' ''TGU-L'' ''fitness'' 2,
                Some ''tgu-r'' \<mapsto> mk_habit ''tgu-r'' ''TGU-R'' ''fitness'' 2,
                Some ''kb'' \<mapsto> mk_habit ''kb'' ''Kettlebell'' ''fitness'' 5],
      entries = data_entries MERGE_TEST_DATA\<rparr>"

definition merge_result :: "int snapshot" where
  "merge_result =
     \<lparr>s_habits = Some
        [mk_habit ''tgu'' ''TGU'' ''fitness'' 3,
         mk_habit ''kb'' ''Kettlebell'' ''fitness'' 5],
      s_entries = Some
        [mk_entry ''e7'' ''kb'' ''2025-11-28'' 10 ''2025-11-28T09:00:00Z'',
         mk_entry ''e3'' ''tgu'' ''2025-11-28'' 8 ''2025-11-28T11:00:00Z'',
         mk_entry ''e2'' ''tgu'' ''2025-11-27'' 3 ''2025-11-27T10:00:00Z'',
         mk_entry ''e4'' ''tgu'' ''2025-11-26'' 4 ''2025-11-26T10:00:00Z'',
         mk_entry ''e6'' ''tgu'' ''2025-11-25'' 7 ''2025-11-25T10:00:00Z''],
      s_other = [(''version'', 1)]\<rparr>"

text \<open>\<^verbatim>\<open>TEST_DATA\<close> of the tests and the fixture \<^verbatim>\<open>humane_data\<close> of the tests built from it.\<close>

definition TEST_DATA :: "int snapshot" where
  "TEST_DATA =
     \<lparr>s_habits = Some
        [mk_habit ''habit1'' ''Morning Run'' ''fitness'' 3,
         mk_habit ''habit2'' ''Meditation'' ''wellness'' 7,
         mk_habit ''habit3'' ''Evening Walk'' ''fitness'' 5],
      s_entries = Some
        [mk_entry ''e1'' ''habit1'' ''2025-11-28'' 1 ''2025-11-28T10:00:00Z'',
         mk_entry ''e2'' ''habit1'' ''2025-11-27'' 1 ''2025-11-27T10:00:00Z'',
         mk_entry ''e3'' ''habit2'' ''2025-11-28'' 1 ''2025-11-28T08:00:00Z''],
      s_other = [(''version'', 1)]\<rparr>"

definition test_fixture :: "int HumaneData" where
  "test_fixture =
     \<lparr>data = TEST_DATA,
      habits = [Some ''habit1'' \<mapsto> mk_habit ''habit1'' ''Morning Run'' ''fitness'' 3,
                Some ''habit2'' \<mapsto> mk_habit ''habit2'' ''Meditation'' ''wellness'' 7,
                Some ''habit3'' \<mapsto> mk_habit ''habit3'' ''Evening Walk'' ''fitness'' 5],
      entries = data_entries TEST_DATA\<rparr>"

text \<open>
  A document in which the habit \<^verbatim>\<open>tgu\<close> has two entries on one day, with dates that
  carry a time, and what merging \<^verbatim>\<open>tgu\<close> with no other habit gives.
\<close>

definition dup_data :: "int snapshot" where
  "dup_data =
     \<lparr>s_habits = Some [mk_habit ''tgu'' ''TGU'' ''fitness'' 3, mk_habit ''kb'' ''Kettlebell'' ''fitness'' 5],
      s_entries = Some
        [mk_entry ''a1'' ''tgu'' ''2025-11-28T08:00:00Z'' 2 ''2025-11-28T08:00:01Z'',
         mk_entry ''b1'' ''kb'' ''2025-11-28T09:00:00Z'' 10 ''2025-11-28T09:00:01Z'',
         mk_entry ''a2'' ''tgu'' ''2025-11-28T17:59:00Z'' 5 ''2025-11-28T18:00:00Z''],
      s_other = []\<rparr>"

definition dup_object :: "int HumaneData" where
  "dup_object =
     \<lparr>data = dup_data,
      habits = [Some ''tgu'' \<mapsto> mk_habit ''tgu'' ''TGU'' ''fitness'' 3,
                Some ''kb'' \<mapsto> mk_habit ''kb'' ''Kettlebell'' ''fitness'' 5],
      entries = data_entries dup_data\<rparr>"

definition dup_result :: "int snapshot" where
  "dup_result =
     \<lparr>s_habits = Some [mk_habit ''tgu'' ''TGU'' ''fitness'' 3, mk_habit ''kb'' ''Kettlebell'' ''fitness'' 5],
      s_entries = Some
        [mk_entry ''b1'' ''kb'' ''2025-11-28T09:00:00Z'' 10 ''2025-11-28T09:00:01Z'',
         mk_entry ''a2'' ''tgu'' ''2025-11-28'' 5 ''2025-11-28T18:00:00Z''],
      s_other = []\<rparr>"

text \<open>
  A document whose entries lack dates, values and times of creation, with what merging
  \<^verbatim>\<open>tgu-l\<close> into \<^verbatim>\<open>tgu\<close> gives, and a document with an entry that has no identifier.
\<close>

definition sparse_data :: "int snapshot" where
  "sparse_data =
     \<lparr>s_habits = Some
        [mk_habit ''tgu'' ''TGU'' ''fitness'' 3,
         \<lparr>h_id = Val ''tgu-l'', h_name = Absent, h_category = Absent, h_targetPerWeek = Absent,
          h_extra = []\<rparr>],
      s_entries = Some
        [\<lparr>e_id = Val ''s1'', e_habitId = Val ''tgu'', e_date = Absent, e_value = Absent,
          e_createdAt = Absent, e_extra = []\<rparr>,
         \<lparr>e_id = Val ''s2'', e_habitId = Val ''tgu-l'', e_date = Absent, e_value = Val 4,
          e_createdAt = Absent, e_extra = []\<rparr>,
         \<lparr>e_id = Val ''s3'', e_habitId = Val ''tgu-l'', e_date = Val ''2025-11-28T10:00:00Z'',
          e_value = Absent, e_createdAt = Absent, e_extra = []\<rparr>,
         \<lparr>e_id = Absent, e_habitId = Val ''kb'', e_date = Absent, e_value = Absent,
          e_createdAt = Absent, e_extra = []\<rparr>],
      s_other = []\<rparr>"

definition sparse_object :: "int HumaneData" where
  "sparse_object =
     \<lparr>data = sparse_data,
      habits = [Some ''tgu'' \<mapsto> mk_habit ''tgu'' ''TGU'' ''fitness'' 3,
                Some ''tgu-l'' \<mapsto>
                  \<lparr>h_id = Val ''tgu-l'', h_name = Absent, h_category = Absent,
                   h_targetPerWeek = Absent, h_extra = []\<rparr>],
      entries = data_entries sparse_data\<rparr>"

definition sparse_result :: "int snapshot" where
  "sparse_result =
     \<lparr>s_habits = Some [mk_habit ''tgu'' ''TGU'' ''fitness'' 3],
      s_entries = Some
        [\<lparr>e_id = Absent, e_habitId = Val ''kb'', e_date = Absent, e_value = Absent,
          e_createdAt = Absent, e_extra = []\<rparr>,
         mk_entry ''s2'' ''tgu'' [] 4 [],
         mk_entry ''s3'' ''tgu'' ''2025-11-28'' 0 []],
      s_other = []\<rparr>"

definition no_id_data :: "int snapshot" where
  "no_id_data =
     \<lparr>s_habits = Some [mk_habit ''tgu'' ''TGU'' ''fitness'' 3],
      s_entries = Some
        [\<lparr>e_id = Absent, e_habitId = Val ''tgu'', e_date = Val ''2025-11-28'', e_value = Val 1,
          e_createdAt = Val ''2025-11-28T10:00:00Z'', e_extra = []\<rparr>],
      s_other = []\<rparr>"

definition no_id_object :: "int HumaneData" where
  "no_id_object =
     \<lparr>data = no_id_data,
      habits = [Some ''tgu'' \<mapsto> mk_habit ''tgu'' ''TGU'' ''fitness'' 3],
      entries = data_entries no_id_data\<rparr>"

text \<open>
  A document with two habits under one identifier, and a document with null fields.
\<close>

definition twice_data :: "int snapshot" where
  "twice_data =
     \<lparr>s_habits = Some
        [mk_habit ''x'' ''First'' ''fitness'' 1,
         mk_habit ''y'' ''Other'' ''wellness'' 4,
         mk_habit ''x'' ''Second'' ''fitness'' 2],
      s_entries = Some
        [mk_entry ''e1'' ''x'' ''2025-11-28'' 1 ''2025-11-28T10:00:00Z'',
         mk_entry ''e2'' ''y'' ''2025-11-28'' 1 ''2025-11-28T11:00:00Z''],
      s_other = []\<rparr>"

definition twice_object :: "int HumaneData" where
  "twice_object =
     \<lparr>data = twice_data,
      habits = [Some ''x'' \<mapsto> mk_habit ''x'' ''First'' ''fitness'' 1,
                Some ''y'' \<mapsto> mk_habit ''y'' ''Other'' ''wellness'' 4,
                Some ''x'' \<mapsto> mk_habit ''x'' ''Second'' ''fitness'' 2],
      entries = data_entries twice_data\<rparr>"

definition null_data :: "int snapshot" where
  "null_data =
     \<lparr>s_habits = Some
        [\<lparr>h_id = Val ''tgu'', h_name = Null, h_category = Val ''fitness'',
          h_targetPerWeek = Null, h_extra = []\<rparr>],
      s_entries = Some
        [\<lparr>e_id = Val ''n1'', e_habitId = Val ''tgu'', e_date = Null, e_value = Val 1,
          e_createdAt = Val ''2025-11-28T10:00:00Z'', e_extra = []\<rparr>],
      s_other = []\<rparr>"

definition null_object :: "int HumaneData" where
  "null_object =
     \<lparr>data = null_data,
      habits = [Some ''tgu'' \<mapsto>
                  \<lparr>h_id = Val ''tgu'', h_name = Null, h_category = Val ''fitness'',
                   h_targetPerWeek = Null, h_extra = []\<rparr>],
      entries = data_entries null_data\<rparr>"

text \<open>
  A document with a habit whose name has the sharp s (U+00DF, \<^verbatim>\<open>stra\<close>, sharp s, \<^verbatim>\<open>e\<close>), and
  a habit whose name is \<^verbatim>\<open>CAF\<close> with the capital E with acute accent (U+00C9).
\<close>

definition strasse :: string where
  "strasse = ''stra'' @ [CHR 0xDF] @ ''e''"

definition cafe_upper :: string where
  "cafe_upper = ''CAF'' @ [CHR 0xC9]"

definition cafe_lower :: string where
  "cafe_lower = ''caf'' @ [CHR 0xE9]"

definition strasse_data :: "int snapshot" where
  "strasse_data =
     \<lparr>s_habits = Some
        [mk_habit ''h1'' strasse ''places'' 1, mk_habit ''h2'' cafe_upper ''places'' 1],
      s_entries = Some [],
      s_other = []\<rparr>"

definition strasse_object :: "int HumaneData" where
  "strasse_object =
     \<lparr>data = strasse_data,
      habits = [Some ''h1'' \<mapsto> mk_habit ''h1'' strasse ''places'' 1,
                Some ''h2'' \<mapsto> mk_habit ''h2'' cafe_upper ''places'' 1],
      entries = data_entries strasse_data\<rparr>"

text \<open>A loader for a file system in which no file can be opened.\<close>

definition no_files :: "string \<Rightarrow> error + int snapshot" where
  "no_files p = Inl OSError"

subsection \<open>Notions used to state the properties\<close>

text \<open>
  \<open>grouped f xs G\<close>: the dictionary \<open>G\<close> has one key for each value that \<open>f\<close> takes
  on \<open>xs\<close>, and under the key \<open>k\<close> it holds the elements of \<open>xs\<close> with \<open>f x = k\<close>, in
  the order of \<open>xs\<close>.
\<close>

definition grouped :: "('a \<Rightarrow> 'k) \<Rightarrow> 'a list \<Rightarrow> ('k \<times> 'a list) list \<Rightarrow> bool" where
  "grouped f xs G \<longleftrightarrow>
     distinct (map fst G) \<and>
     (\<forall>k. map_of G k = (if k \<in> f ` set xs then Some (filter (\<lambda>x. f x = k) xs) else None))"

text \<open>The normalised date of an entry whose date can be sliced.\<close>

definition norm_date :: "'j entry \<Rightarrow> string" where
  "norm_date e = (case date_key e of Inl err \<Rightarrow> [] | Inr d \<Rightarrow> d)"

text \<open>What one group contributes to the merged entries.\<close>

definition emitted :: "string \<Rightarrow> string \<times> 'j entry list \<Rightarrow> 'j entry \<Rightarrow> bool" where
  "emitted t dg m \<longleftrightarrow>
     (\<exists>w ident. py_max (snd dg) = Inr w \<and> subscript (e_id w) = Inr ident
        \<and> m = merged_entry t (fst dg) ident w)"

text \<open>
  The key under which \<^verbatim>\<open>get_categories\<close> files a habit, and the tuple that
  \<^verbatim>\<open>get_category_stats\<close> makes of one item of the dictionary of categories when every
  target in it can be added.
\<close>

definition category_key :: "'j habit \<Rightarrow> string option" where
  "category_key h = get_or (h_category h) ''uncategorized''"

definition stat_of :: "string option \<times> 'j habit list \<Rightarrow> string option \<times> nat \<times> int" where
  "stat_of item =
     (fst item, length (snd item),
      sum_list (map (\<lambda>h. the (get_or (h_targetPerWeek h) 0)) (snd item)))"

text \<open>
  \<open>mergeable self t srcs\<close>: every habit has the key \<^verbatim>\<open>id\<close>, and every entry of the target
  or of an effective source has it and has no null date and no null value. Dates,
  values and times of creation may be missing.
\<close>

definition mergeable :: "'j HumaneData \<Rightarrow> string \<Rightarrow> string list \<Rightarrow> bool" where
  "mergeable self t srcs \<longleftrightarrow>
     (\<forall>e \<in> set (entries self). involved t (effective_sources t srcs) e \<longrightarrow>
        e_date e \<noteq> Null \<and> e_value e \<noteq> Null \<and> e_id e \<noteq> Absent)
     \<and> (\<forall>h \<in> set (data_habits (data self)). h_id h \<noteq> Absent)"

section \<open>Dictionaries of lists\<close>

lemma keys_dd_append:
  "map fst (dd_append k v al) = (if k \<in> set (map fst al) then map fst al else map fst al @ [k])"
  by (induction al) (auto simp: rev_image_eqI)

lemma map_of_dd_append:
  "map_of (dd_append k v al) =
     (map_of al)(k \<mapsto> (case map_of al k of None \<Rightarrow> [] | Some vs \<Rightarrow> vs) @ [v])"
  by (induction al) (auto simp: fun_eq_iff)

lemma distinct_dd_append:
  "distinct (map fst al) \<Longrightarrow> distinct (map fst (dd_append k v al))"
  by (simp add: keys_dd_append)

lemma grouped_Nil: "grouped f [] []"
  by (simp add: grouped_def)

lemma filter_key_empty: "k \<notin> f ` set xs \<Longrightarrow> filter (\<lambda>x. f x = k) xs = []"
  by (auto simp: filter_empty_conv)

lemma grouped_snoc:
  assumes "grouped f xs G"
  shows "grouped f (xs @ [x]) (dd_append (f x) x G)"
  using assms unfolding grouped_def
  by (auto simp: distinct_dd_append map_of_dd_append filter_key_empty)

lemma grouped_foldl:
  "grouped f xs (foldl (\<lambda>acc x. dd_append (f x) x acc) [] xs)"
  by (induction xs rule: rev_induct) (simp_all add: grouped_Nil grouped_snoc)

lemma grouped_mem:
  assumes "grouped f xs G"
  shows "(k, g) \<in> set G \<longleftrightarrow> k \<in> f ` set xs \<and> g = filter (\<lambda>x. f x = k) xs"
proof -
  from assms have d: "distinct (map fst G)"
    by (simp add: grouped_def)
  from assms have m:
    "map_of G k = (if k \<in> f ` set xs then Some (filter (\<lambda>x. f x = k) xs) else None)"
    by (simp add: grouped_def)
  have "(k, g) \<in> set G \<longleftrightarrow> map_of G k = Some g"
    using d by simp
  with m show ?thesis by auto
qed

lemma grouped_keys:
  assumes "grouped f xs G"
  shows "set (map fst G) = f ` set xs"
proof -
  have "k \<in> set (map fst G) \<longleftrightarrow> k \<in> f ` set xs" for k
  proof -
    have "k \<in> set (map fst G) \<longleftrightarrow> (\<exists>g. (k, g) \<in> set G)"
      by force
    then show ?thesis
      using grouped_mem [OF assms] by simp
  qed
  then show ?thesis by blast
qed

lemma grouped_nonempty: "grouped f xs G \<Longrightarrow> (k, g) \<in> set G \<Longrightarrow> g \<noteq> []"
  by (auto simp: grouped_mem filter_empty_conv)

lemma sum_length_grouped:
  assumes "grouped f xs G"
  shows "sum_list (map (\<lambda>item. length (snd item)) G) = length xs"
proof -
  from assms have d: "distinct (map fst G)" by (simp add: grouped_def)
  have snd_eq: "\<forall>item \<in> set G. snd item = filter (\<lambda>x. f x = fst item) xs"
    using grouped_mem [OF assms] by (metis prod.collapse)
  have "sum_list (map (\<lambda>item. length (snd item)) G)
      = sum_list (map (\<lambda>k. length (filter (\<lambda>x. f x = k) xs)) (map fst G))"
    using snd_eq by (simp add: comp_def cong: map_cong)
  also have "\<dots> = (\<Sum>k \<in> set (map fst G). length (filter (\<lambda>x. f x = k) xs))"
    using d by (rule sum_list_distinct_conv_sum_set)
  also have "\<dots> = (\<Sum>k \<in> f ` set xs. length (filter (\<lambda>x. f x = k) xs))"
    using grouped_keys [OF assms] by simp
  also have "\<dots> = length xs"
  proof (induction xs rule: rev_induct)
    case Nil
    then show ?case by simp
  next
    case (snoc x xs)
    have fin: "finite (f ` set xs)" by simp
    have "(\<Sum>k \<in> f ` set (xs @ [x]). length (filter (\<lambda>x. f x = k) (xs @ [x])))
        = (\<Sum>k \<in> insert (f x) (f ` set xs). length (filter (\<lambda>x. f x = k) xs) + (if f x = k then 1 else 0))"
      by (rule sum.cong) auto
    also have "\<dots> = (\<Sum>k \<in> insert (f x) (f ` set xs). length (filter (\<lambda>x. f x = k) xs))
         + (\<Sum>k \<in> insert (f x) (f ` set xs). (if f x = k then 1 else 0))"
      by (simp add: sum.distrib)
    also have "(\<Sum>k \<in> insert (f x) (f ` set xs). (if f x = k then 1 else 0)) = (1::nat)"
      by simp
    also have "(\<Sum>k \<in> insert (f x) (f ` set xs). length (filter (\<lambda>x. f x = k) xs))
        = (\<Sum>k \<in> f ` set xs. length (filter (\<lambda>x. f x = k) xs))"
    proof (cases "f x \<in> f ` set xs")
      case True
      then show ?thesis by (simp add: insert_absorb)
    next
      case False
      then have "filter (\<lambda>y. f y = f x) xs = []"
        by (rule filter_key_empty)
      with False fin show ?thesis by simp
    qed
    finally show ?case using snoc by simp
  qed
  finally show ?thesis .
qed

section \<open>The steps of the merge\<close>

lemma involved_iff:
  "involved t A e \<longleftrightarrow> (\<exists>i. e_habitId e = Val i \<and> (i = t \<or> i \<in> A))"
  by (cases "e_habitId e") (auto simp: involved_def)

lemma date_key_take:
  "date_key e = Inr d \<Longrightarrow> \<exists>s. get_or (e_date e) [] = Some s \<and> d = take 10 s"
  by (auto simp: date_key_def split: option.splits)

lemma date_key_Inr_iff: "(\<exists>d. date_key e = Inr d) \<longleftrightarrow> e_date e \<noteq> Null"
  by (cases "e_date e") (auto simp: date_key_def)

lemma date_key_norm: "e_date e \<noteq> Null \<Longrightarrow> date_key e = Inr (norm_date e)"
  by (cases "e_date e") (auto simp: date_key_def norm_date_def)

lemma value_key_None_iff: "value_key e = None \<longleftrightarrow> e_value e = Null"
  by (cases "e_value e") (auto simp: value_key_def)

lemma group_by_date_foldl:
  "group_by_date t A acc es = Inr G \<Longrightarrow>
     G = foldl (\<lambda>acc e. dd_append (norm_date e) e acc) acc (filter (involved t A) es)
     \<and> (\<forall>e \<in> set es. involved t A e \<longrightarrow> date_key e = Inr (norm_date e))"
proof (induction es arbitrary: acc)
  case Nil
  then show ?case by simp
next
  case (Cons e es)
  show ?case
  proof (cases "involved t A e")
    case False
    with Cons show ?thesis by simp
  next
    case True
    with Cons.prems obtain d where d: "date_key e = Inr d"
      and r: "group_by_date t A (dd_append d e acc) es = Inr G"
      by (auto split: sum.splits)
    from d have nd: "norm_date e = d"
      by (simp add: norm_date_def)
    from Cons.IH [OF r] True d nd show ?thesis by simp
  qed
qed

lemma group_by_date_total:
  "(\<forall>e \<in> set es. involved t A e \<longrightarrow> e_date e \<noteq> Null) \<Longrightarrow>
     \<exists>G. group_by_date t A acc es = Inr G"
proof (induction es arbitrary: acc)
  case Nil
  then show ?case by simp
next
  case (Cons e es)
  then show ?case
    by (cases "e_date e") (auto simp: date_key_def)
qed

lemma max_scan_decomp:
  "max_scan best es = Inr w \<Longrightarrow>
     \<exists>pre post. best # es = pre @ w # post
       \<and> (\<forall>x \<in> set pre. value_key x < value_key w)
       \<and> (\<forall>x \<in> set post. value_key x \<le> value_key w)
       \<and> (es \<noteq> [] \<longrightarrow> (\<forall>x \<in> set (best # es). value_key x \<noteq> None))"
proof (induction es arbitrary: best)
  case Nil
  then have "w = best" by simp
  then have "[best] = [] @ w # []" by simp
  then show ?case by fastforce
next
  case (Cons e es)
  from Cons.prems obtain v b where v: "value_key e = Some v" and b: "value_key best = Some b"
    by (auto split: option.splits)
  show ?case
  proof (cases "v > b")
    case True
    with Cons.prems v b have "max_scan e es = Inr w" by simp
    from Cons.IH [OF this] obtain pre post where
      d: "e # es = pre @ w # post"
      and p: "\<forall>x \<in> set pre. value_key x < value_key w"
      and q: "\<forall>x \<in> set post. value_key x \<le> value_key w"
      and n: "es \<noteq> [] \<longrightarrow> (\<forall>x \<in> set (e # es). value_key x \<noteq> None)"
      by blast
    have ew: "value_key e \<le> value_key w"
    proof (cases pre)
      case Nil
      with d show ?thesis by simp
    next
      case (Cons a pre')
      with d p show ?thesis by auto
    qed
    with v b True have bw: "value_key best < value_key w"
      by (cases "value_key w") auto
    have 1: "best # e # es = (best # pre) @ w # post"
      using d by simp
    have 2: "\<forall>x \<in> set (best # pre). value_key x < value_key w"
      using p bw by simp
    have 3: "\<forall>x \<in> set (best # e # es). value_key x \<noteq> None"
    proof (cases es)
      case Nil
      then show ?thesis using v b by simp
    next
      case (Cons a list)
      then show ?thesis using n b by simp
    qed
    from 1 2 q 3 show ?thesis by blast
  next
    case False
    with Cons.prems v b have "max_scan best es = Inr w" by simp
    from Cons.IH [OF this] obtain pre post where
      d: "best # es = pre @ w # post"
      and p: "\<forall>x \<in> set pre. value_key x < value_key w"
      and q: "\<forall>x \<in> set post. value_key x \<le> value_key w"
      and n: "es \<noteq> [] \<longrightarrow> (\<forall>x \<in> set (best # es). value_key x \<noteq> None)"
      by blast
    have 3: "\<forall>x \<in> set (best # e # es). value_key x \<noteq> None"
    proof (cases es)
      case Nil
      then show ?thesis using v b by simp
    next
      case (Cons a list)
      then show ?thesis using n v by simp
    qed
    show ?thesis
    proof (cases pre)
      case Nil
      with d have wb: "w = best" and es: "es = post" by simp_all
      have 1: "best # e # es = [] @ w # (e # post)"
        using wb es by simp
      have 2: "\<forall>x \<in> set (e # post). value_key x \<le> value_key w"
        using q wb v b False by simp
      from 1 2 3 show ?thesis by (metis empty_iff empty_set)
    next
      case (Cons a pre')
      with d have a: "a = best" and es: "es = pre' @ w # post" by simp_all
      from p Cons a have bw: "value_key best < value_key w" by simp
      with v b False have "value_key e < value_key w"
        by (cases "value_key w") auto
      with p have 2: "\<forall>x \<in> set (best # e # pre'). value_key x < value_key w"
        using Cons a by simp
      have 1: "best # e # es = (best # e # pre') @ w # post"
        using es by simp
      from 1 2 q 3 show ?thesis by blast
    qed
  qed
qed

lemma max_scan_total:
  "(\<forall>x \<in> set (best # es). value_key x \<noteq> None) \<Longrightarrow> \<exists>w. max_scan best es = Inr w"
  by (induction es arbitrary: best) auto

lemma py_max_decomp:
  "py_max g = Inr w \<Longrightarrow>
     \<exists>pre post. g = pre @ w # post
       \<and> (\<forall>x \<in> set pre. value_key x < value_key w)
       \<and> (\<forall>x \<in> set post. value_key x \<le> value_key w)
       \<and> (pre @ post \<noteq> [] \<longrightarrow> (\<forall>x \<in> set g. value_key x \<noteq> None))"
proof -
  assume a: "py_max g = Inr w"
  then obtain e es where g: "g = e # es" and m: "max_scan e es = Inr w"
    by (auto simp: py_max_def split: list.splits)
  from max_scan_decomp [OF m] obtain pre post where
      d: "e # es = pre @ w # post"
      and p: "\<forall>x \<in> set pre. value_key x < value_key w"
      and q: "\<forall>x \<in> set post. value_key x \<le> value_key w"
      and n: "es \<noteq> [] \<longrightarrow> (\<forall>x \<in> set (e # es). value_key x \<noteq> None)"
    by blast
  have "pre @ post \<noteq> [] \<longrightarrow> es \<noteq> []"
    using d by (cases pre) auto
  with d p q n g show ?thesis by blast
qed

lemma py_max_total:
  "g \<noteq> [] \<Longrightarrow> (length g \<ge> 2 \<longrightarrow> (\<forall>x \<in> set g. value_key x \<noteq> None)) \<Longrightarrow> \<exists>w. py_max g = Inr w"
proof (cases g)
  case Nil
  assume "g \<noteq> []"
  with Nil show ?thesis by simp
next
  case (Cons e es)
  assume a: "length g \<ge> 2 \<longrightarrow> (\<forall>x \<in> set g. value_key x \<noteq> None)"
  show ?thesis
  proof (cases es)
    case Nil
    with Cons show ?thesis by (simp add: py_max_def)
  next
    case (Cons e' es')
    with \<open>g = e # es\<close> a have "\<forall>x \<in> set (e # es). value_key x \<noteq> None" by simp
    from max_scan_total [OF this] \<open>g = e # es\<close> show ?thesis
      by (simp add: py_max_def)
  qed
qed

lemma decomp_order:
  assumes eq: "pre @ w # post = pre' @ w' # post'" and lt: "length pre < length pre'"
  shows "w \<in> set pre' \<and> w' \<in> set post"
proof -
  have "w = (pre @ w # post) ! length pre" by simp
  also have "\<dots> = (pre' @ w' # post') ! length pre" using eq by simp
  also have "\<dots> = pre' ! length pre" using lt by (simp add: nth_append)
  finally have 1: "w \<in> set pre'" using lt by simp
  have len: "length pre + Suc (length post) = length pre' + Suc (length post')"
    using arg_cong [OF eq, of length] by simp
  have "w' = (pre' @ w' # post') ! length pre'" by simp
  also have "\<dots> = (pre @ w # post) ! length pre'" using eq by simp
  also have "\<dots> = (w # post) ! (length pre' - length pre)"
    using lt by (simp add: nth_append)
  also have "\<dots> = post ! (length pre' - length pre - 1)"
    using lt by (simp add: nth_Cons')
  finally have "w' = post ! (length pre' - length pre - 1)" .
  moreover have "length pre' - length pre - 1 < length post"
    using len lt by arith
  ultimately have 2: "w' \<in> set post" by simp
  from 1 2 show ?thesis by simp
qed

lemma decomp_unique:
  fixes f :: "'a \<Rightarrow> 'b::linorder"
  assumes eq: "pre @ w # post = pre' @ w' # post'"
    and a: "\<forall>x \<in> set pre. f x < f w" and b: "\<forall>x \<in> set post. f x \<le> f w"
    and c: "\<forall>x \<in> set pre'. f x < f w'" and d: "\<forall>x \<in> set post'. f x \<le> f w'"
  shows "w = w'"
proof -
  have "length pre = length pre'"
  proof (rule ccontr)
    assume ne: "length pre \<noteq> length pre'"
    show False
    proof (cases "length pre < length pre'")
      case True
      from decomp_order [OF eq True] b c show False by force
    next
      case False
      with ne have lt: "length pre' < length pre" by simp
      from decomp_order [OF eq [symmetric] lt] a d show False by force
    qed
  qed
  with eq show ?thesis by simp
qed

lemma decomp_Max:
  fixes f :: "'a \<Rightarrow> 'b::linorder"
  assumes "g = pre @ w # post"
    and "\<forall>x \<in> set pre. f x < f w" and "\<forall>x \<in> set post. f x \<le> f w"
  shows "f w = Max (f ` set g)"
proof -
  have "\<forall>y \<in> f ` set g. y \<le> f w"
    using assms by (auto simp: less_imp_le)
  moreover have "f w \<in> f ` set g"
    using assms by simp
  ultimately have "Max (f ` set g) = f w"
    by (intro Max_eqI) auto
  then show ?thesis by simp
qed

lemma merge_groups_all2:
  "merge_groups t G = Inr ms \<Longrightarrow> list_all2 (emitted t) G ms"
proof (induction G arbitrary: ms)
  case Nil
  then show ?case by simp
next
  case (Cons dg G)
  obtain d g where dg: "dg = (d, g)" by (cases dg)
  from Cons.prems dg obtain w ident ms' where
    w: "py_max g = Inr w" and i: "subscript (e_id w) = Inr ident"
    and r: "merge_groups t G = Inr ms'" and ms: "ms = merged_entry t d ident w # ms'"
    by (auto split: sum.splits)
  from w i dg have "emitted t dg (merged_entry t d ident w)"
    by (auto simp: emitted_def)
  with Cons.IH [OF r] ms show ?case by simp
qed

lemma merge_groups_total:
  "(\<forall>dg \<in> set G. \<exists>w. py_max (snd dg) = Inr w \<and> e_id w \<noteq> Absent) \<Longrightarrow>
     \<exists>ms. merge_groups t G = Inr ms"
proof (induction G)
  case Nil
  then show ?case by simp
next
  case (Cons dg G)
  obtain d g where dg: "dg = (d, g)" by (cases dg)
  from Cons.prems dg obtain w where w: "py_max g = Inr w" and i: "e_id w \<noteq> Absent"
    by auto
  from i obtain ident where "subscript (e_id w) = Inr ident"
    by (cases "e_id w") auto
  moreover from Cons obtain ms where "merge_groups t G = Inr ms" by auto
  ultimately show ?case using w dg by simp
qed

lemma emitted_date: "emitted t dg m \<Longrightarrow> e_date m = Val (fst dg)"
  by (auto simp: emitted_def merged_entry_def)

lemma emitted_habitId: "emitted t dg m \<Longrightarrow> e_habitId m = Val t"
  by (auto simp: emitted_def merged_entry_def)

lemma all2_emitted_dates:
  "list_all2 (emitted t) G ms \<Longrightarrow> map e_date ms = map (\<lambda>dg. Val (fst dg)) G"
  by (induction rule: list_all2_induct) (simp_all add: emitted_date)

lemma all2_emitted_habitId:
  "list_all2 (emitted t) G ms \<Longrightarrow> \<forall>m \<in> set ms. e_habitId m = Val t"
  by (induction rule: list_all2_induct) (simp_all add: emitted_habitId)

lemma all2_emitted_unique:
  assumes "list_all2 (emitted t) G ms" and "distinct (map fst G)" and "(d, g) \<in> set G"
  shows "\<exists>m. emitted t (d, g) m \<and> filter (\<lambda>m. e_date m = Val d) ms = [m]"
  using assms
proof (induction rule: list_all2_induct)
  case Nil
  then show ?case by simp
next
  case (Cons dg G m ms)
  show ?case
  proof (cases "dg = (d, g)")
    case True
    with Cons.prems have "d \<notin> fst ` set G" by auto
    then have "\<forall>dg' \<in> set G. Val (fst dg') \<noteq> (Val d :: string field)" by force
    then have "Val d \<notin> set (map e_date ms)"
      using all2_emitted_dates [OF Cons.hyps(2)] by auto
    then have "filter (\<lambda>m. e_date m = Val d) ms = []"
      by (force simp: filter_empty_conv)
    with True Cons.hyps(1) show ?thesis
      by (auto simp: emitted_date)
  next
    case False
    with Cons.prems have in_G: "(d, g) \<in> set G" and dd: "distinct (map fst G)"
      and nk: "fst dg \<notin> fst ` set G" by auto
    from in_G have "d \<in> fst ` set G" by force
    with nk have ne: "fst dg \<noteq> d" by auto
    from Cons.IH [OF dd in_G] obtain m' where
      "emitted t (d, g) m'" "filter (\<lambda>m. e_date m = Val d) ms = [m']" by blast
    moreover from Cons.hyps(1) ne have "e_date m \<noteq> Val d"
      by (simp add: emitted_date)
    ultimately show ?thesis by auto
  qed
qed

lemma merged_entry_of_winner:
  "subscript (e_id w) = Inr ident \<Longrightarrow>
     merged_entry t d ident w =
       \<lparr>e_id = e_id w, e_habitId = Val t, e_date = Val d, e_value = store (value_key w),
        e_createdAt = store (get_or (e_createdAt w) []), e_extra = []\<rparr>
     \<and> e_id w \<noteq> Absent"
  by (cases "e_id w") (auto simp: merged_entry_def value_key_def)

lemma keep_habits_filter:
  "keep_habits A hs = Inr nh \<Longrightarrow>
     nh = filter (\<lambda>h. \<not> (\<exists>i \<in> A. h_id h = Val i)) hs \<and> (\<forall>h \<in> set hs. h_id h \<noteq> Absent)"
proof (induction hs arbitrary: nh)
  case Nil
  then show ?case by simp
next
  case (Cons h hs)
  from Cons.prems obtain ident nh' where i: "subscript (h_id h) = Inr ident"
    and r: "keep_habits A hs = Inr nh'"
    and nh: "nh = (if (case ident of None \<Rightarrow> False | Some i \<Rightarrow> i \<in> A) then nh' else h # nh')"
    by (auto split: sum.splits)
  from i have "(case ident of None \<Rightarrow> False | Some i \<Rightarrow> i \<in> A) \<longleftrightarrow> (\<exists>i \<in> A. h_id h = Val i)"
    by (cases "h_id h") auto
  moreover from i have "h_id h \<noteq> Absent" by auto
  ultimately show ?case using Cons.IH [OF r] nh by simp
qed

lemma keep_habits_total:
  "(\<forall>h \<in> set hs. h_id h \<noteq> Absent) \<Longrightarrow> \<exists>nh. keep_habits A hs = Inr nh"
proof (induction hs)
  case Nil
  then show ?case by simp
next
  case (Cons h hs)
  then obtain nh where "keep_habits A hs = Inr nh" by auto
  moreover from Cons.prems obtain ident where "subscript (h_id h) = Inr ident"
    by (cases "h_id h") auto
  ultimately show ?case by simp
qed

lemma merge_habits_Inr:
  assumes "merge_habits self t srcs = Inr result"
  obtains G ms nh where
    "group_by_date t (effective_sources t srcs) [] (entries self) = Inr G"
    "merge_groups t G = Inr ms"
    "keep_habits (effective_sources t srcs) (data_habits (data self)) = Inr nh"
    "result = (data self)\<lparr>s_habits := Some nh,
       s_entries := Some (filter (\<lambda>e. \<not> involved t (effective_sources t srcs) e) (entries self) @ ms)\<rparr>"
  using assms unfolding merge_habits_def Let_def
  by (auto split: sum.splits)

lemma merge_habits_cong:
  "set srcs' - {t} = set srcs - {t} \<Longrightarrow> merge_habits self t srcs' = merge_habits self t srcs"
  by (simp add: merge_habits_def effective_sources_def)

lemma merge_structure:
  assumes "merge_habits self t srcs = Inr result"
  shows "\<exists>G ms.
    grouped norm_date (filter (involved t (effective_sources t srcs)) (entries self)) G
    \<and> (\<forall>e \<in> set (entries self). involved t (effective_sources t srcs) e \<longrightarrow>
        date_key e = Inr (norm_date e))
    \<and> list_all2 (emitted t) G ms
    \<and> data_entries result =
       filter (\<lambda>e. \<not> involved t (effective_sources t srcs) e) (entries self) @ ms
    \<and> data_habits result =
       filter (\<lambda>h. \<not> (\<exists>i \<in> effective_sources t srcs. h_id h = Val i)) (data_habits (data self))
    \<and> s_other result = s_other (data self)"
proof -
  from assms obtain G ms nh where
    g: "group_by_date t (effective_sources t srcs) [] (entries self) = Inr G" and
    m: "merge_groups t G = Inr ms" and
    k: "keep_habits (effective_sources t srcs) (data_habits (data self)) = Inr nh" and
    r: "result = (data self)\<lparr>s_habits := Some nh,
       s_entries := Some (filter (\<lambda>e. \<not> involved t (effective_sources t srcs) e) (entries self) @ ms)\<rparr>"
    by (rule merge_habits_Inr)
  from group_by_date_foldl [OF g] have
    G: "G = foldl (\<lambda>acc e. dd_append (norm_date e) e acc) []
              (filter (involved t (effective_sources t srcs)) (entries self))"
    and d: "\<forall>e \<in> set (entries self). involved t (effective_sources t srcs) e \<longrightarrow>
        date_key e = Inr (norm_date e)"
    by simp_all
  have 1: "grouped norm_date (filter (involved t (effective_sources t srcs)) (entries self)) G"
    unfolding G by (rule grouped_foldl)
  have 3: "list_all2 (emitted t) G ms"
    using m by (rule merge_groups_all2)
  have 4: "data_entries result =
       filter (\<lambda>e. \<not> involved t (effective_sources t srcs) e) (entries self) @ ms"
    using r by (simp add: data_entries_def)
  have 5: "data_habits result =
       filter (\<lambda>h. \<not> (\<exists>i \<in> effective_sources t srcs. h_id h = Val i)) (data_habits (data self))"
    using r keep_habits_filter [OF k] by (simp add: data_habits_def)
  have 6: "s_other result = s_other (data self)"
    using r by simp
  from 1 d 3 4 5 6 show ?thesis by blast
qed

lemma merged_for_date:
  assumes G: "grouped norm_date C G" and a: "list_all2 (emitted t) G ms"
    and e: "e \<in> set C" and d: "norm_date e = d"
  shows "\<exists>pre w post.
      filter (\<lambda>x. norm_date x = d) C = pre @ w # post
      \<and> (\<forall>x \<in> set pre. value_key x < value_key w)
      \<and> (\<forall>x \<in> set post. value_key x \<le> value_key w)
      \<and> (pre @ post \<noteq> [] \<longrightarrow> (\<forall>x \<in> set (pre @ w # post). value_key x \<noteq> None))
      \<and> e_id w \<noteq> Absent
      \<and> filter (\<lambda>m. e_date m = Val d) ms =
          [\<lparr>e_id = e_id w, e_habitId = Val t, e_date = Val d, e_value = store (value_key w),
            e_createdAt = store (get_or (e_createdAt w) []), e_extra = []\<rparr>]"
proof -
  let ?g = "filter (\<lambda>x. norm_date x = d) C"
  from e d have "d \<in> norm_date ` set C" by auto
  then have in_G: "(d, ?g) \<in> set G"
    using grouped_mem [OF G] by simp
  from G have dist: "distinct (map fst G)"
    by (simp add: grouped_def)
  from all2_emitted_unique [OF a dist in_G] obtain m where
    em: "emitted t (d, ?g) m" and f: "filter (\<lambda>m. e_date m = Val d) ms = [m]"
    by blast
  from em obtain w ident where w: "py_max ?g = Inr w" and i: "subscript (e_id w) = Inr ident"
    and m: "m = merged_entry t d ident w"
    by (auto simp: emitted_def)
  from py_max_decomp [OF w] obtain pre post where
    g: "?g = pre @ w # post"
    and p: "\<forall>x \<in> set pre. value_key x < value_key w"
    and q: "\<forall>x \<in> set post. value_key x \<le> value_key w"
    and n: "pre @ post \<noteq> [] \<longrightarrow> (\<forall>x \<in> set ?g. value_key x \<noteq> None)"
    by blast
  from n g have n': "pre @ post \<noteq> [] \<longrightarrow> (\<forall>x \<in> set (pre @ w # post). value_key x \<noteq> None)"
    by simp
  from merged_entry_of_winner [OF i] m f have
    "e_id w \<noteq> Absent"
    "filter (\<lambda>m. e_date m = Val d) ms =
          [\<lparr>e_id = e_id w, e_habitId = Val t, e_date = Val d, e_value = store (value_key w),
            e_createdAt = store (get_or (e_createdAt w) []), e_extra = []\<rparr>]"
    by simp_all
  with g p q n' show ?thesis by blast
qed

lemma merged_dates:
  assumes G: "grouped norm_date C G" and a: "list_all2 (emitted t) G ms"
  shows "distinct (map e_date ms) \<and> set (map e_date ms) = (\<lambda>e. Val (norm_date e)) ` set C"
proof -
  have m: "map e_date ms = map Val (map fst G)"
    using all2_emitted_dates [OF a] by simp
  from G have "distinct (map fst G)"
    by (simp add: grouped_def)
  then have "distinct (map e_date ms)"
    unfolding m by (simp add: distinct_map inj_on_def)
  moreover have "set (map e_date ms) = (\<lambda>e. Val (norm_date e)) ` set C"
    unfolding m using grouped_keys [OF G] by (simp add: image_image) (metis image_image)
  ultimately show ?thesis by simp
qed

lemma merge_habits_returns:
  assumes g: "group_by_date t (effective_sources t srcs) [] (entries self) = Inr G"
    and m: "merge_groups t G = Inr ms"
    and k: "keep_habits (effective_sources t srcs) (data_habits (data self)) = Inr nh"
  shows "\<exists>result. merge_habits self t srcs = Inr result"
  using assms by (simp add: merge_habits_def)

lemma merge_habits_returns_if:
  assumes "(\<forall>e \<in> set (entries self). involved t (effective_sources t srcs) e \<longrightarrow> e_date e \<noteq> Null)
   \<and> (\<forall>e \<in> set (entries self). \<forall>d. involved t (effective_sources t srcs) e \<and> date_key e = Inr d
          \<and> 2 \<le> length (filter (\<lambda>x. involved t (effective_sources t srcs) x \<and> date_key x = Inr d)
                          (entries self))
          \<longrightarrow> e_value e \<noteq> Null)
   \<and> (\<forall>d pre w post.
          filter (\<lambda>x. involved t (effective_sources t srcs) x \<and> date_key x = Inr d) (entries self)
            = pre @ w # post
          \<and> (\<forall>x \<in> set pre. value_key x < value_key w)
          \<and> (\<forall>x \<in> set post. value_key x \<le> value_key w)
          \<longrightarrow> e_id w \<noteq> Absent)
   \<and> (\<forall>h \<in> set (data_habits (data self)). h_id h \<noteq> Absent)"
    (is "?D \<and> ?V \<and> ?I \<and> ?H")
  shows "\<exists>result. merge_habits self t srcs = Inr result"
proof -
  let ?A = "effective_sources t srcs"
  let ?C = "filter (involved t ?A) (entries self)"
  from assms have D: ?D and V: ?V and I: ?I and H: ?H by blast+
  from group_by_date_total [of "entries self" t ?A "[]"] D obtain G where
    g: "group_by_date t ?A [] (entries self) = Inr G" by blast
  from group_by_date_foldl [OF g] have
    G: "G = foldl (\<lambda>acc e. dd_append (norm_date e) e acc) [] ?C"
    and dk: "\<forall>e \<in> set (entries self). involved t ?A e \<longrightarrow> date_key e = Inr (norm_date e)"
    by simp_all
  have gr: "grouped norm_date ?C G"
    unfolding G by (rule grouped_foldl)
  have grp: "filter (\<lambda>x. norm_date x = d) ?C =
           filter (\<lambda>x. involved t ?A x \<and> date_key x = Inr d) (entries self)" for d
    unfolding filter_filter
    by (rule filter_cong) (use dk in \<open>auto simp: norm_date_def\<close>)
  have "\<forall>dg \<in> set G. \<exists>w. py_max (snd dg) = Inr w \<and> e_id w \<noteq> Absent"
  proof
    fix dg assume dg: "dg \<in> set G"
    obtain d g where p: "dg = (d, g)" by (cases dg)
    from dg p grouped_mem [OF gr, of d g] have d: "d \<in> norm_date ` set ?C"
      and gd: "g = filter (\<lambda>x. involved t ?A x \<and> date_key x = Inr d) (entries self)"
      using grp by simp_all
    from dg p grouped_nonempty [OF gr] have ne: "g \<noteq> []" by blast
    have "2 \<le> length g \<longrightarrow> (\<forall>x \<in> set g. value_key x \<noteq> None)"
    proof (intro impI ballI)
      fix x assume l: "2 \<le> length g" and x: "x \<in> set g"
      from x gd have "x \<in> set (entries self)" "involved t ?A x" "date_key x = Inr d"
        by simp_all
      with V l gd have "e_value x \<noteq> Null" by blast
      then show "value_key x \<noteq> None" by (simp add: value_key_None_iff)
    qed
    from py_max_total [OF ne this] obtain w where w: "py_max g = Inr w" by blast
    from py_max_decomp [OF w] obtain pre post where
      "g = pre @ w # post" "\<forall>x \<in> set pre. value_key x < value_key w"
      "\<forall>x \<in> set post. value_key x \<le> value_key w"
      by blast
    with I gd have "e_id w \<noteq> Absent" by blast
    with w p show "\<exists>w. py_max (snd dg) = Inr w \<and> e_id w \<noteq> Absent" by simp
  qed
  from merge_groups_total [OF this] obtain ms where m: "merge_groups t G = Inr ms" by blast
  from keep_habits_total [of "data_habits (data self)" ?A] H obtain nh where
    k: "keep_habits ?A (data_habits (data self)) = Inr nh" by blast
  from merge_habits_returns [OF g m k] show ?thesis .
qed

lemma merge_returns_exactly:
  "(\<exists>result. merge_habits self t srcs = Inr result) \<longleftrightarrow>
     (\<forall>e \<in> set (entries self). involved t (effective_sources t srcs) e \<longrightarrow> e_date e \<noteq> Null)
   \<and> (\<forall>e \<in> set (entries self). \<forall>d. involved t (effective_sources t srcs) e \<and> date_key e = Inr d
          \<and> 2 \<le> length (filter (\<lambda>x. involved t (effective_sources t srcs) x \<and> date_key x = Inr d)
                          (entries self))
          \<longrightarrow> e_value e \<noteq> Null)
   \<and> (\<forall>d pre w post.
          filter (\<lambda>x. involved t (effective_sources t srcs) x \<and> date_key x = Inr d) (entries self)
            = pre @ w # post
          \<and> (\<forall>x \<in> set pre. value_key x < value_key w)
          \<and> (\<forall>x \<in> set post. value_key x \<le> value_key w)
          \<longrightarrow> e_id w \<noteq> Absent)
   \<and> (\<forall>h \<in> set (data_habits (data self)). h_id h \<noteq> Absent)"
  (is "?L \<longleftrightarrow> ?D \<and> ?V \<and> ?I \<and> ?H")
proof
  let ?A = "effective_sources t srcs"
  let ?C = "filter (involved t ?A) (entries self)"
  assume ?L
  then obtain result where r: "merge_habits self t srcs = Inr result" by blast
  from merge_structure [OF r] obtain G ms where
    G: "grouped norm_date ?C G" and
    dk: "\<forall>e \<in> set (entries self). involved t ?A e \<longrightarrow> date_key e = Inr (norm_date e)" and
    a: "list_all2 (emitted t) G ms"
    by blast
  have grp: "filter (\<lambda>x. norm_date x = d) ?C =
           filter (\<lambda>x. involved t ?A x \<and> date_key x = Inr d) (entries self)" for d
    unfolding filter_filter
    by (rule filter_cong) (use dk in \<open>auto simp: norm_date_def\<close>)
  have D: ?D
  proof (intro ballI impI)
    fix e assume "e \<in> set (entries self)" "involved t ?A e"
    with dk have "date_key e = Inr (norm_date e)" by simp
    then show "e_date e \<noteq> Null" using date_key_Inr_iff by blast
  qed
  have per: "\<exists>pre w post.
      filter (\<lambda>x. involved t ?A x \<and> date_key x = Inr d) (entries self) = pre @ w # post
      \<and> (\<forall>x \<in> set pre. value_key x < value_key w)
      \<and> (\<forall>x \<in> set post. value_key x \<le> value_key w)
      \<and> (pre @ post \<noteq> [] \<longrightarrow> (\<forall>x \<in> set (pre @ w # post). value_key x \<noteq> None))
      \<and> e_id w \<noteq> Absent"
    if "e \<in> set (entries self)" "involved t ?A e" "date_key e = Inr d" for e d
  proof -
    from that have eC: "e \<in> set ?C" by simp
    from that have nd: "norm_date e = d" by (simp add: norm_date_def)
    from merged_for_date [OF G a eC nd] show ?thesis
      unfolding grp by blast
  qed
  have V: ?V
  proof (intro ballI allI impI)
    fix e d
    assume e: "e \<in> set (entries self)"
      and h: "involved t ?A e \<and> date_key e = Inr d
          \<and> 2 \<le> length (filter (\<lambda>x. involved t ?A x \<and> date_key x = Inr d) (entries self))"
    from per [of e d] e h obtain pre w post where
      1: "filter (\<lambda>x. involved t ?A x \<and> date_key x = Inr d) (entries self) = pre @ w # post"
      and 2: "pre @ post \<noteq> [] \<longrightarrow> (\<forall>x \<in> set (pre @ w # post). value_key x \<noteq> None)"
      by blast
    from h 1 have "pre @ post \<noteq> []" by auto
    with 2 have "\<forall>x \<in> set (pre @ w # post). value_key x \<noteq> None" by simp
    moreover from e h have "e \<in> set (filter (\<lambda>x. involved t ?A x \<and> date_key x = Inr d) (entries self))"
      by simp
    ultimately have "value_key e \<noteq> None" unfolding 1 by blast
    then show "e_value e \<noteq> Null" by (simp add: value_key_None_iff)
  qed
  have I: ?I
  proof (intro allI impI)
    fix d pre w post
    assume h: "filter (\<lambda>x. involved t ?A x \<and> date_key x = Inr d) (entries self) = pre @ w # post
          \<and> (\<forall>x \<in> set pre. value_key x < value_key w)
          \<and> (\<forall>x \<in> set post. value_key x \<le> value_key w)"
    then have "w \<in> set (filter (\<lambda>x. involved t ?A x \<and> date_key x = Inr d) (entries self))"
      by simp
    then have w: "w \<in> set (entries self)" "involved t ?A w" "date_key w = Inr d"
      by simp_all
    from per [OF w] obtain pre' w' post' where
      1: "filter (\<lambda>x. involved t ?A x \<and> date_key x = Inr d) (entries self) = pre' @ w' # post'"
      and 2: "\<forall>x \<in> set pre'. value_key x < value_key w'"
      and 3: "\<forall>x \<in> set post'. value_key x \<le> value_key w'"
      and 4: "e_id w' \<noteq> Absent"
      by blast
    from h 1 have eq: "pre @ w # post = pre' @ w' # post'" by simp
    from h have 5: "\<forall>x \<in> set pre. value_key x < value_key w"
      and 6: "\<forall>x \<in> set post. value_key x \<le> value_key w" by simp_all
    from decomp_unique [OF eq 5 6 2 3] 4 show "e_id w \<noteq> Absent" by simp
  qed
  from r obtain G' ms' nh where
    "group_by_date t ?A [] (entries self) = Inr G'" "merge_groups t G' = Inr ms'" and
    k: "keep_habits ?A (data_habits (data self)) = Inr nh"
    by (rule merge_habits_Inr)
  from keep_habits_filter [OF k] have H: ?H by simp
  from D V I H show "?D \<and> ?V \<and> ?I \<and> ?H" by blast
next
  assume "?D \<and> ?V \<and> ?I \<and> ?H"
  then show ?L by (rule merge_habits_returns_if)
qed

lemma group_by_date_null_date:
  "e \<in> set es \<Longrightarrow> involved t A e \<Longrightarrow> e_date e = Null \<Longrightarrow>
     group_by_date t A acc es = Inl TypeError"
proof (induction es arbitrary: acc)
  case Nil
  then show ?case by simp
next
  case (Cons x xs)
  show ?case
  proof (cases "involved t A x \<and> e_date x = Null")
    case True
    then show ?thesis by (simp add: date_key_def)
  next
    case False
    with Cons.prems have "e \<in> set xs" by auto
    from Cons.IH [OF this Cons.prems(2,3)] show ?thesis
      by (cases "e_date x") (auto simp: date_key_def)
  qed
qed

lemma merge_habits_null_date:
  assumes "e \<in> set (entries self)" "involved t (effective_sources t srcs) e" "e_date e = Null"
  shows "merge_habits self t srcs = Inl TypeError"
  using group_by_date_null_date [OF assms, of "[]"]
  by (simp add: merge_habits_def)

lemma merge_groups_error:
  "(\<forall>dg \<in> set G. \<exists>w. py_max (snd dg) = Inr w) \<Longrightarrow> merge_groups t G = Inl err \<Longrightarrow>
     err = KeyError"
proof (induction G)
  case Nil
  then show ?case by simp
next
  case (Cons dg G)
  obtain d g where dg: "dg = (d, g)" by (cases dg)
  from Cons.prems(1) dg obtain w where w: "py_max g = Inr w" by auto
  show ?case
  proof (cases "e_id w")
    case Absent
    with Cons.prems(2) dg w show ?thesis by simp
  next
    case Null
    with Cons.prems(2) dg w have "merge_groups t G = Inl err"
      by (simp split: sum.splits)
    with Cons show ?thesis by simp
  next
    case (Val i)
    with Cons.prems(2) dg w have "merge_groups t G = Inl err"
      by (simp split: sum.splits)
    with Cons show ?thesis by simp
  qed
qed

lemma keep_habits_error:
  "keep_habits A hs = Inl err \<Longrightarrow> err = KeyError"
proof (induction hs)
  case Nil
  then show ?case by simp
next
  case (Cons h hs)
  then show ?case
    by (cases "h_id h") (auto split: sum.splits)
qed

lemma groups_have_max:
  assumes g: "group_by_date t A [] es = Inr G"
    and V: "\<forall>e \<in> set es. \<forall>d. involved t A e \<and> date_key e = Inr d
          \<and> 2 \<le> length (filter (\<lambda>x. involved t A x \<and> date_key x = Inr d) es)
          \<longrightarrow> e_value e \<noteq> Null"
  shows "\<forall>dg \<in> set G. \<exists>w. py_max (snd dg) = Inr w"
proof
  let ?C = "filter (involved t A) es"
  from group_by_date_foldl [OF g] have
    G: "G = foldl (\<lambda>acc e. dd_append (norm_date e) e acc) [] ?C"
    and dk: "\<forall>e \<in> set es. involved t A e \<longrightarrow> date_key e = Inr (norm_date e)"
    by simp_all
  have gr: "grouped norm_date ?C G"
    unfolding G by (rule grouped_foldl)
  have grp: "filter (\<lambda>x. norm_date x = d) ?C =
           filter (\<lambda>x. involved t A x \<and> date_key x = Inr d) es" for d
    unfolding filter_filter
    by (rule filter_cong) (use dk in \<open>auto simp: norm_date_def\<close>)
  fix dg assume dg: "dg \<in> set G"
  obtain d g where p: "dg = (d, g)" by (cases dg)
  from dg p grouped_mem [OF gr, of d g] have
    gd: "g = filter (\<lambda>x. involved t A x \<and> date_key x = Inr d) es"
    using grp by simp_all
  from dg p grouped_nonempty [OF gr] have ne: "g \<noteq> []" by blast
  have "2 \<le> length g \<longrightarrow> (\<forall>x \<in> set g. value_key x \<noteq> None)"
  proof (intro impI ballI)
    fix x assume l: "2 \<le> length g" and x: "x \<in> set g"
    from x gd have "x \<in> set es" "involved t A x" "date_key x = Inr d"
      by simp_all
    with V l gd have "e_value x \<noteq> Null" by blast
    then show "value_key x \<noteq> None" by (simp add: value_key_None_iff)
  qed
  from py_max_total [OF ne this] p show "\<exists>w. py_max (snd dg) = Inr w" by simp
qed

lemma merge_habits_KeyError:
  assumes D: "\<forall>e \<in> set (entries self). involved t (effective_sources t srcs) e \<longrightarrow> e_date e \<noteq> Null"
    and V: "\<forall>e \<in> set (entries self). \<forall>d. involved t (effective_sources t srcs) e \<and> date_key e = Inr d
          \<and> 2 \<le> length (filter (\<lambda>x. involved t (effective_sources t srcs) x \<and> date_key x = Inr d)
                          (entries self))
          \<longrightarrow> e_value e \<noteq> Null"
  shows "(\<exists>result. merge_habits self t srcs = Inr result) \<or> merge_habits self t srcs = Inl KeyError"
proof -
  let ?A = "effective_sources t srcs"
  from group_by_date_total [of "entries self" t ?A "[]"] D obtain G where
    g: "group_by_date t ?A [] (entries self) = Inr G" by blast
  note mx = groups_have_max [OF g V]
  show ?thesis
  proof (cases "merge_groups t G")
    case (Inl err)
    with merge_groups_error [OF mx] have "merge_groups t G = Inl KeyError" by simp
    with g show ?thesis by (simp add: merge_habits_def)
  next
    case (Inr ms)
    show ?thesis
    proof (cases "keep_habits ?A (data_habits (data self))")
      case (Inl err)
      with keep_habits_error have "keep_habits ?A (data_habits (data self)) = Inl KeyError"
        by blast
      with g Inr show ?thesis by (simp add: merge_habits_def)
    next
      case k: (Inr nh)
      from merge_habits_returns [OF g Inr k] show ?thesis by simp
    qed
  qed
qed

lemma merge_habits_total:
  assumes e: "\<forall>e \<in> set (entries self). involved t (effective_sources t srcs) e \<longrightarrow>
      e_date e \<noteq> Null \<and> e_value e \<noteq> Null \<and> e_id e \<noteq> Absent"
    and h: "\<forall>h \<in> set (data_habits (data self)). h_id h \<noteq> Absent"
  shows "\<exists>result. merge_habits self t srcs = Inr result"
proof (rule merge_habits_returns_if, intro conjI)
  let ?A = "effective_sources t srcs"
  show "\<forall>e \<in> set (entries self). involved t ?A e \<longrightarrow> e_date e \<noteq> Null"
    using e by blast
  show "\<forall>e \<in> set (entries self). \<forall>d. involved t ?A e \<and> date_key e = Inr d
          \<and> 2 \<le> length (filter (\<lambda>x. involved t ?A x \<and> date_key x = Inr d) (entries self))
          \<longrightarrow> e_value e \<noteq> Null"
    using e by blast
  show "\<forall>d pre w post.
          filter (\<lambda>x. involved t ?A x \<and> date_key x = Inr d) (entries self) = pre @ w # post
          \<and> (\<forall>x \<in> set pre. value_key x < value_key w)
          \<and> (\<forall>x \<in> set post. value_key x \<le> value_key w)
          \<longrightarrow> e_id w \<noteq> Absent"
  proof (intro allI impI)
    fix d pre w post
    assume "filter (\<lambda>x. involved t ?A x \<and> date_key x = Inr d) (entries self) = pre @ w # post
          \<and> (\<forall>x \<in> set pre. value_key x < value_key w)
          \<and> (\<forall>x \<in> set post. value_key x \<le> value_key w)"
    then have "w \<in> set (filter (\<lambda>x. involved t ?A x \<and> date_key x = Inr d) (entries self))"
      by simp
    then have "w \<in> set (entries self)" "involved t ?A w" by simp_all
    with e show "e_id w \<noteq> Absent" by blast
  qed
  show "\<forall>h \<in> set (data_habits (data self)). h_id h \<noteq> Absent"
    using h .
qed

section \<open>The steps of the queries\<close>

lemma get_categories_grouped:
  "grouped category_key (data_habits (data self)) (get_categories self)"
proof -
  have "get_categories self =
      foldl (\<lambda>acc x. dd_append (category_key x) x acc) [] (data_habits (data self))"
    by (simp add: get_categories_def category_key_def)
  then show ?thesis by (simp add: grouped_foldl)
qed

lemma py_sum_acc: "py_sum acc vs = Inr tt0 \<Longrightarrow>
   None \<notin> set vs \<and> tt0 = acc + sum_list (map the vs)"
proof (induction vs arbitrary: acc)
  case Nil
  then show ?case by simp
next
  case (Cons v vs)
  show ?case
  proof (cases v)
    case None
    with Cons.prems show ?thesis by simp
  next
    case (Some a)
    with Cons.prems have "py_sum (acc + a) vs = Inr tt0" by simp
    from Cons.IH [OF this] Some show ?thesis by simp
  qed
qed

lemma py_sum_total: "None \<notin> set vs \<Longrightarrow> \<exists>tt0. py_sum acc vs = Inr tt0"
proof (induction vs arbitrary: acc)
  case Nil
  then show ?case by simp
next
  case (Cons v vs)
  then show ?case by (cases v) auto
qed

lemma stats_loop_map:
  "stats_loop items = Inr stats \<Longrightarrow>
     stats = map stat_of items
     \<and> (\<forall>item \<in> set items. \<forall>h \<in> set (snd item). h_targetPerWeek h \<noteq> Null)"
proof (induction items arbitrary: stats)
  case Nil
  then show ?case by simp
next
  case (Cons item items)
  obtain cat hs where i: "item = (cat, hs)" by (cases item)
  from Cons.prems i obtain tt0 stats' where
    t: "py_sum 0 (map (\<lambda>h. get_or (h_targetPerWeek h) 0) hs) = Inr tt0"
    and r: "stats_loop items = Inr stats'"
    and s: "stats = (cat, length hs, tt0) # stats'"
    by (auto split: sum.splits)
  from py_sum_acc [OF t] have n: "None \<notin> set (map (\<lambda>h. get_or (h_targetPerWeek h) 0) hs)"
    and tt: "tt0 = sum_list (map (\<lambda>h. the (get_or (h_targetPerWeek h) 0)) hs)"
    by (simp_all add: comp_def)
  have "\<forall>h \<in> set hs. h_targetPerWeek h \<noteq> Null"
  proof
    fix h assume "h \<in> set hs"
    with n have "get_or (h_targetPerWeek h) 0 \<noteq> None" by force
    then show "h_targetPerWeek h \<noteq> Null" by (cases "h_targetPerWeek h") auto
  qed
  with Cons.IH [OF r] s tt i show ?case
    by (simp add: stat_of_def)
qed

lemma stats_loop_total:
  "(\<forall>item \<in> set items. \<forall>h \<in> set (snd item). h_targetPerWeek h \<noteq> Null) \<Longrightarrow>
     \<exists>stats. stats_loop items = Inr stats"
proof (induction items)
  case Nil
  then show ?case by simp
next
  case (Cons item items)
  obtain cat hs where i: "item = (cat, hs)" by (cases item)
  from Cons.prems i have "\<forall>h \<in> set hs. h_targetPerWeek h \<noteq> Null" by simp
  then have "None \<notin> set (map (\<lambda>h. get_or (h_targetPerWeek h) 0) hs)"
  proof -
    assume a: "\<forall>h \<in> set hs. h_targetPerWeek h \<noteq> Null"
    have "get_or (h_targetPerWeek h) 0 \<noteq> None" if "h \<in> set hs" for h
      using a that by (cases "h_targetPerWeek h") auto
    then show ?thesis by force
  qed
  from py_sum_total [OF this] obtain tt0 where
    "py_sum 0 (map (\<lambda>h. get_or (h_targetPerWeek h) 0) hs) = Inr tt0" by blast
  moreover from Cons obtain stats where "stats_loop items = Inr stats" by auto
  ultimately show ?case using i by simp
qed

lemma distinct_map_sort_key:
  "distinct (map f (sort_key f xs)) = distinct (map f xs)"
  by (induction xs) (simp_all add: distinct_insort_key)

lemma py_sorted_items_Inr:
  "py_sorted_items G = Inr items \<Longrightarrow>
     items = sort_key fst G \<and> (None \<in> fst ` set G \<longrightarrow> length G \<le> 1)"
  by (auto simp: py_sorted_items_def split: if_splits)

lemma get_category_stats_Inr:
  assumes "get_category_stats self = Inr stats"
  shows "stats = map stat_of (sort_key fst (get_categories self))
    \<and> (None \<in> fst ` set (get_categories self) \<longrightarrow> length (get_categories self) \<le> 1)
    \<and> (\<forall>h \<in> set (data_habits (data self)). h_targetPerWeek h \<noteq> Null)"
proof -
  let ?G = "get_categories self"
  let ?hs = "data_habits (data self)"
  from assms obtain items where i: "py_sorted_items ?G = Inr items"
    and l: "stats_loop items = Inr stats"
    by (auto simp: get_category_stats_def split: sum.splits)
  from py_sorted_items_Inr [OF i] have it: "items = sort_key fst ?G"
    and n: "None \<in> fst ` set ?G \<longrightarrow> length ?G \<le> 1" by simp_all
  from stats_loop_map [OF l] have st: "stats = map stat_of items"
    and nn: "\<forall>item \<in> set items. \<forall>h \<in> set (snd item). h_targetPerWeek h \<noteq> Null" by simp_all
  have "\<forall>h \<in> set ?hs. h_targetPerWeek h \<noteq> Null"
  proof
    fix h assume h: "h \<in> set ?hs"
    let ?k = "category_key h"
    from h have "(?k, filter (\<lambda>x. category_key x = ?k) ?hs) \<in> set ?G"
      using grouped_mem [OF get_categories_grouped, of ?k _ self] by simp
    moreover from h have "h \<in> set (filter (\<lambda>x. category_key x = ?k) ?hs)" by simp
    ultimately show "h_targetPerWeek h \<noteq> Null"
      using nn it by force
  qed
  with st it n show ?thesis by simp
qed

lemma get_category_stats_total:
  assumes t: "\<forall>h \<in> set (data_habits (data self)). h_targetPerWeek h \<noteq> Null"
    and c: "(\<exists>h \<in> set (data_habits (data self)). h_category h = Null) \<longrightarrow>
            (\<forall>h \<in> set (data_habits (data self)). h_category h = Null)"
  shows "\<exists>stats. get_category_stats self = Inr stats"
proof -
  let ?G = "get_categories self"
  let ?hs = "data_habits (data self)"
  note gr = get_categories_grouped [of self]
  have keys: "set (map fst ?G) = category_key ` set ?hs"
    using grouped_keys [OF gr] .
  have dist: "distinct (map fst ?G)"
    using gr by (simp add: grouped_def)
  have null_iff: "category_key h = None \<longleftrightarrow> h_category h = Null" for h :: "'a habit"
    by (cases "h_category h") (auto simp: category_key_def)
  have "\<not> (2 \<le> length ?G \<and> None \<in> set (map fst ?G))"
  proof
    assume a: "2 \<le> length ?G \<and> None \<in> set (map fst ?G)"
    then have "None \<in> category_key ` set ?hs" using keys by simp
    then have "\<exists>h \<in> set ?hs. h_category h = Null" using null_iff by force
    with c have "\<forall>h \<in> set ?hs. category_key h = None" using null_iff by blast
    then have "set (map fst ?G) \<subseteq> {None}" using keys by auto
    then have "card (set (map fst ?G)) \<le> 1"
      by (metis card_mono finite.emptyI finite.insertI card_1_singleton_iff is_singletonI
          is_singleton_altdef)
    moreover from distinct_card [OF dist] have "length (map fst ?G) = card (set (map fst ?G))"
      by simp
    ultimately have "length (map fst ?G) \<le> 1"
      by (simp only:)
    with a show False by simp
  qed
  then have "py_sorted_items ?G = Inr (sort_key fst ?G)"
    by (simp add: py_sorted_items_def)
  moreover have "\<forall>item \<in> set (sort_key fst ?G). \<forall>h \<in> set (snd item). h_targetPerWeek h \<noteq> Null"
  proof (intro ballI)
    fix item h assume i: "item \<in> set (sort_key fst ?G)" and h: "h \<in> set (snd item)"
    from i have "(fst item, snd item) \<in> set ?G" by simp
    with grouped_mem [OF gr] have "snd item = filter (\<lambda>x. category_key x = fst item) ?hs"
      by blast
    with h have "h \<in> set ?hs" by simp
    with t show "h_targetPerWeek h \<noteq> Null" by blast
  qed
  from stats_loop_total [OF this] obtain stats where
    "stats_loop (sort_key fst ?G) = Inr stats" by blast
  ultimately show ?thesis
    by (simp add: get_category_stats_def)
qed

lemma py_sum_error: "py_sum acc vs = Inl err \<Longrightarrow> err = TypeError"
proof (induction vs arbitrary: acc)
  case Nil
  then show ?case by simp
next
  case (Cons v vs)
  then show ?case by (cases v) auto
qed

lemma stats_loop_error: "stats_loop items = Inl err \<Longrightarrow> err = TypeError"
proof (induction items)
  case Nil
  then show ?case by simp
next
  case (Cons item items)
  obtain cat hs where i: "item = (cat, hs)" by (cases item)
  from Cons i show ?case
    by (auto split: sum.splits dest: py_sum_error)
qed

lemma get_category_stats_error: "get_category_stats self = Inl err \<Longrightarrow> err = TypeError"
  by (auto simp: get_category_stats_def py_sorted_items_def split: sum.splits if_splits
      dest: stats_loop_error)

lemma get_category_stats_returns_iff:
  "(\<exists>stats. get_category_stats self = Inr stats) \<longleftrightarrow>
     (\<forall>h \<in> set (data_habits (data self)). h_targetPerWeek h \<noteq> Null)
     \<and> ((\<exists>h \<in> set (data_habits (data self)). h_category h = Null) \<longrightarrow>
        (\<forall>h \<in> set (data_habits (data self)). h_category h = Null))"
  (is "?L \<longleftrightarrow> ?T \<and> ?C")
proof
  assume ?L
  then obtain stats where s: "get_category_stats self = Inr stats" by blast
  let ?G = "get_categories self"
  let ?hs = "data_habits (data self)"
  from get_category_stats_Inr [OF s] have
    n: "None \<in> fst ` set ?G \<longrightarrow> length ?G \<le> 1" and t: ?T by simp_all
  note gr = get_categories_grouped [of self]
  have keys: "set (map fst ?G) = category_key ` set ?hs"
    using grouped_keys [OF gr] .
  have dist: "distinct (map fst ?G)"
    using gr by (simp add: grouped_def)
  have null_iff: "category_key h = None \<longleftrightarrow> h_category h = Null" for h :: "'a habit"
    by (cases "h_category h") (auto simp: category_key_def)
  have ?C
  proof (intro impI ballI)
    fix h
    assume "\<exists>h \<in> set ?hs. h_category h = Null" and h: "h \<in> set ?hs"
    then have "None \<in> category_key ` set ?hs" using null_iff by force
    with keys have m: "None \<in> set (map fst ?G)" by simp
    with n have "length (map fst ?G) \<le> 1" by simp
    with dist have "card (set (map fst ?G)) \<le> 1"
      using distinct_card [OF dist] by simp
    moreover from h keys have "category_key h \<in> set (map fst ?G)" by blast
    ultimately have "category_key h = None"
      using m by (metis List.finite_set card_le_Suc0_iff_eq One_nat_def)
    then show "h_category h = Null" using null_iff by simp
  qed
  with t show "?T \<and> ?C" by simp
next
  assume "?T \<and> ?C"
  then show ?L using get_category_stats_total [of self] by blast
qed

lemma contains_iff: "contains p s \<longleftrightarrow> (\<exists>pre post. s = pre @ p @ post)"
proof (induction s)
  case Nil
  then show ?case by auto
next
  case (Cons c cs)
  show ?case
  proof
    assume "contains p (c # cs)"
    then consider "prefix p (c # cs)" | "contains p cs" by auto
    then show "\<exists>pre post. c # cs = pre @ p @ post"
    proof cases
      case 1
      then obtain post where "c # cs = p @ post" by (auto simp: prefix_def)
      then have "c # cs = [] @ p @ post" by simp
      then show ?thesis by blast
    next
      case 2
      with Cons obtain pre post where "cs = pre @ p @ post" by blast
      then have "c # cs = (c # pre) @ p @ post" by simp
      then show ?thesis by blast
    qed
  next
    assume "\<exists>pre post. c # cs = pre @ p @ post"
    then obtain pre post where e: "c # cs = pre @ p @ post" by blast
    show "contains p (c # cs)"
    proof (cases pre)
      case Nil
      with e have "prefix p (c # cs)" by (simp add: prefix_def)
      then show ?thesis by simp
    next
      case (Cons a pre')
      with e have "cs = pre' @ p @ post" by simp
      with Cons.IH have "contains p cs" by blast
      then show ?thesis by simp
    qed
  qed
qed

lemma contains_Nil: "contains [] s"
  by (cases s) simp_all

lemma find_loop_Inr:
  "find_loop pl hs = Inr found \<Longrightarrow>
     found = filter (\<lambda>h. contains pl (lower (case h_name h of Val n \<Rightarrow> n | _ \<Rightarrow> []))) hs
     \<and> (\<forall>h \<in> set hs. h_name h \<noteq> Null)"
proof (induction hs arbitrary: found)
  case Nil
  then show ?case by simp
next
  case (Cons h hs)
  from Cons.prems obtain name found' where
    n: "get_or (h_name h) [] = Some name" and r: "find_loop pl hs = Inr found'"
    and f: "found = (if contains pl (lower name) then h # found' else found')"
    by (auto split: option.splits sum.splits)
  from n have "h_name h \<noteq> Null" and "name = (case h_name h of Val n \<Rightarrow> n | _ \<Rightarrow> [])"
    by (cases "h_name h"; simp)+
  with Cons.IH [OF r] f show ?case by simp
qed

lemma find_loop_total:
  "(\<forall>h \<in> set hs. h_name h \<noteq> Null) \<Longrightarrow> \<exists>found. find_loop pl hs = Inr found"
proof (induction hs)
  case Nil
  then show ?case by simp
next
  case (Cons h hs)
  then obtain found where "find_loop pl hs = Inr found" by auto
  moreover from Cons.prems obtain name where "get_or (h_name h) [] = Some name"
    by (cases "h_name h") auto
  ultimately show ?case by simp
qed

lemma find_loop_error: "find_loop pl hs = Inl err \<Longrightarrow> err = AttributeError"
proof (induction hs)
  case Nil
  then show ?case by simp
next
  case (Cons h hs)
  then show ?case
    by (cases "h_name h") (auto split: sum.splits)
qed

lemma find_habits_by_name_error:
  "find_habits_by_name humane_data pattern = Inl err \<Longrightarrow> err = AttributeError"
  by (auto simp: find_habits_by_name_def dest: find_loop_error)

lemma find_habits_by_name_filter:
  "(\<forall>found. find_habits_by_name humane_data pattern = Inr found \<longrightarrow>
      found = filter (\<lambda>h. \<exists>pre post.
                  lower (case h_name h of Val n \<Rightarrow> n | _ \<Rightarrow> []) = pre @ lower pattern @ post)
                (data_habits (data humane_data)))
   \<and> ((\<exists>found. find_habits_by_name humane_data pattern = Inr found) \<longleftrightarrow>
        (\<forall>h \<in> set (data_habits (data humane_data)). h_name h \<noteq> Null))
   \<and> (\<forall>found. find_habits_by_name humane_data [] = Inr found \<longrightarrow>
        found = data_habits (data humane_data))"
proof (intro conjI allI impI)
  fix found assume "find_habits_by_name humane_data pattern = Inr found"
  then have "find_loop (lower pattern) (data_habits (data humane_data)) = Inr found"
    by (simp add: find_habits_by_name_def)
  from find_loop_Inr [OF this] show "found = filter (\<lambda>h. \<exists>pre post.
                  lower (case h_name h of Val n \<Rightarrow> n | _ \<Rightarrow> []) = pre @ lower pattern @ post)
                (data_habits (data humane_data))"
    by (simp add: contains_iff)
next
  show "(\<exists>found. find_habits_by_name humane_data pattern = Inr found) \<longleftrightarrow>
        (\<forall>h \<in> set (data_habits (data humane_data)). h_name h \<noteq> Null)"
    unfolding find_habits_by_name_def
    using find_loop_Inr find_loop_total by blast
next
  fix found assume "find_habits_by_name humane_data [] = Inr found"
  then have "find_loop [] (data_habits (data humane_data)) = Inr found"
    by (simp add: find_habits_by_name_def lower_def)
  from find_loop_Inr [OF this] show "found = data_habits (data humane_data)"
    by (simp add: contains_Nil)
qed

section \<open>The constructor\<close>

lemma subscript_Some_iff: "subscript f = Inr (Some i) \<longleftrightarrow> f = Val i"
  by (cases f) auto

lemma build_index_Inr:
  "build_index m hs = Inr idx \<Longrightarrow>
     (\<forall>h \<in> set hs. h_id h \<noteq> Absent)
     \<and> (\<forall>k. idx k = (if filter (\<lambda>h. subscript (h_id h) = Inr k) hs = [] then m k
                     else Some (last (filter (\<lambda>h. subscript (h_id h) = Inr k) hs))))"
proof (induction hs arbitrary: m)
  case Nil
  then show ?case by simp
next
  case (Cons h hs)
  from Cons.prems obtain k0 where k0: "subscript (h_id h) = Inr k0"
    and r: "build_index (m(k0 \<mapsto> h)) hs = Inr idx"
    by (auto split: sum.splits)
  from k0 have na: "h_id h \<noteq> Absent" by auto
  from Cons.IH [OF r] have all: "\<forall>h \<in> set hs. h_id h \<noteq> Absent"
    and idx: "\<And>k. idx k = (if filter (\<lambda>h. subscript (h_id h) = Inr k) hs = [] then (m(k0 \<mapsto> h)) k
                     else Some (last (filter (\<lambda>h. subscript (h_id h) = Inr k) hs)))"
    by simp_all
  have "idx k = (if filter (\<lambda>h. subscript (h_id h) = Inr k) (h # hs) = [] then m k
                     else Some (last (filter (\<lambda>h. subscript (h_id h) = Inr k) (h # hs))))" for k
    using idx [of k] k0 by auto
  with na all show ?case by simp
qed

lemma build_index_total:
  "(\<forall>h \<in> set hs. h_id h \<noteq> Absent) \<Longrightarrow> \<exists>idx. build_index m hs = Inr idx"
proof (induction hs arbitrary: m)
  case Nil
  then show ?case by simp
next
  case (Cons h hs)
  from Cons.prems obtain k where "subscript (h_id h) = Inr k"
    by (cases "h_id h") auto
  moreover from Cons obtain idx where "build_index (m(k \<mapsto> h)) hs = Inr idx"
    by force
  ultimately show ?case by simp
qed

lemma init_Inr:
  assumes "HumaneData_init load_file filepath dat = Inr self"
  shows "entries self = data_entries (data self)
    \<and> (\<forall>h \<in> set (data_habits (data self)). h_id h \<noteq> Absent)
    \<and> (\<forall>i. habits self (Some i) =
          (if filter (\<lambda>h. h_id h = Val i) (data_habits (data self)) = [] then None
           else Some (last (filter (\<lambda>h. h_id h = Val i) (data_habits (data self))))))
    \<and> (dat \<noteq> None \<longrightarrow> dat = Some (data self))
    \<and> (dat = None \<longrightarrow> (\<exists>p. filepath = Some p \<and> p \<noteq> [] \<and> load_file p = Inr (data self)))"
proof -
  from assms obtain d idx where
    d: "(case dat of Some d \<Rightarrow> Inr d
         | None \<Rightarrow> (case filepath of None \<Rightarrow> Inl ValueError
                     | Some p \<Rightarrow> if p \<noteq> [] then load_file p else Inl ValueError)) = Inr d"
    and b: "build_index Map.empty (data_habits d) = Inr idx"
    and s: "self = \<lparr>data = d, habits = idx, entries = data_entries d\<rparr>"
    unfolding HumaneData_init_def by (auto split: sum.splits)
  from build_index_Inr [OF b] have a: "\<forall>h \<in> set (data_habits d). h_id h \<noteq> Absent"
    and i: "\<And>k. idx k = (if filter (\<lambda>h. subscript (h_id h) = Inr k) (data_habits d) = [] then None
                     else Some (last (filter (\<lambda>h. subscript (h_id h) = Inr k) (data_habits d))))"
    by simp_all
  have 1: "entries self = data_entries (data self)" using s by simp
  have 2: "\<forall>h \<in> set (data_habits (data self)). h_id h \<noteq> Absent" using s a by simp
  have 3: "\<forall>i. habits self (Some i) =
          (if filter (\<lambda>h. h_id h = Val i) (data_habits (data self)) = [] then None
           else Some (last (filter (\<lambda>h. h_id h = Val i) (data_habits (data self)))))"
    using s i by (simp add: subscript_Some_iff)
  have 4: "dat \<noteq> None \<longrightarrow> dat = Some (data self)"
    using d s by (auto split: option.splits)
  have 5: "dat = None \<longrightarrow> (\<exists>p. filepath = Some p \<and> p \<noteq> [] \<and> load_file p = Inr (data self))"
    using d s by (auto split: option.splits if_splits)
  from 1 2 3 4 5 show ?thesis by blast
qed

section \<open>The examples, evaluated\<close>

lemma init_merge_data: "HumaneData_init lf None (Some MERGE_TEST_DATA) = Inr merge_data"
  by (simp add: HumaneData_init_def MERGE_TEST_DATA_def merge_data_def data_habits_def
      data_entries_def mk_habit_def)

lemma merge_test: "merge_habits merge_data ''tgu'' [''tgu-l'', ''tgu-r''] = Inr merge_result"
  by (simp add: merge_habits_def merge_data_def MERGE_TEST_DATA_def merge_result_def
      effective_sources_def data_entries_def data_habits_def mk_habit_def mk_entry_def
      involved_def date_key_def py_max_def value_key_def merged_entry_def)

lemma init_test_fixture: "HumaneData_init lf None (Some TEST_DATA) = Inr test_fixture"
  by (simp add: HumaneData_init_def TEST_DATA_def test_fixture_def data_habits_def
      data_entries_def mk_habit_def)

lemma cats_test: "get_categories test_fixture =
   [(Some ''fitness'', [mk_habit ''habit1'' ''Morning Run'' ''fitness'' 3, mk_habit ''habit3'' ''Evening Walk'' ''fitness'' 5]),
    (Some ''wellness'', [mk_habit ''habit2'' ''Meditation'' ''wellness'' 7])]"
  by (simp add: get_categories_def test_fixture_def TEST_DATA_def data_habits_def mk_habit_def)

lemma stats_test: "get_category_stats test_fixture =
   Inr [(Some ''fitness'', 2, 8), (Some ''wellness'', 1, 7)]"
  by (simp add: get_category_stats_def cats_test py_sorted_items_def mk_habit_def)

lemma find_tgu: "find_habits_by_name merge_data ''TGU'' =
   Inr [mk_habit ''tgu'' ''TGU'' ''fitness'' 3, mk_habit ''tgu-l'' ''TGU-L'' ''fitness'' 2,
        mk_habit ''tgu-r'' ''TGU-R'' ''fitness'' 2]"
  by (simp add: find_habits_by_name_def merge_data_def MERGE_TEST_DATA_def data_habits_def
      mk_habit_def lower_def lower_char_def char_of_def bit_Suc_0_iff)

lemma init_dup_object: "HumaneData_init lf None (Some dup_data) = Inr dup_object"
  by (simp add: HumaneData_init_def dup_data_def dup_object_def data_habits_def
      data_entries_def mk_habit_def)

lemma merge_dup: "merge_habits dup_object ''tgu'' [''tgu''] = Inr dup_result"
  by (simp add: merge_habits_def dup_object_def dup_data_def dup_result_def
      effective_sources_def data_entries_def data_habits_def mk_habit_def mk_entry_def
      involved_def date_key_def py_max_def value_key_def merged_entry_def)

lemma init_sparse_object: "HumaneData_init lf None (Some sparse_data) = Inr sparse_object"
  by (simp add: HumaneData_init_def sparse_data_def sparse_object_def data_habits_def
      data_entries_def mk_habit_def)

lemma merge_sparse: "merge_habits sparse_object ''tgu'' [''tgu-l''] = Inr sparse_result"
  by (simp add: merge_habits_def sparse_object_def sparse_data_def sparse_result_def
      effective_sources_def data_entries_def data_habits_def mk_habit_def mk_entry_def
      involved_def date_key_def py_max_def value_key_def merged_entry_def)

lemma stats_sparse: "get_category_stats sparse_object =
   Inr [(Some ''fitness'', 1, 3), (Some ''uncategorized'', 1, 0)]"
  by (simp add: get_category_stats_def get_categories_def sparse_object_def sparse_data_def
      data_habits_def py_sorted_items_def mk_habit_def)

lemma init_no_id_object: "HumaneData_init lf None (Some no_id_data) = Inr no_id_object"
  by (simp add: HumaneData_init_def no_id_data_def no_id_object_def data_habits_def
      data_entries_def mk_habit_def)

lemma init_twice_object: "HumaneData_init lf None (Some twice_data) = Inr twice_object"
  by (simp add: HumaneData_init_def twice_data_def twice_object_def data_habits_def
      data_entries_def mk_habit_def)

lemma init_null_object: "HumaneData_init lf None (Some null_data) = Inr null_object"
  by (simp add: HumaneData_init_def null_data_def null_object_def data_habits_def
      data_entries_def)

lemma init_strasse_object: "HumaneData_init lf None (Some strasse_data) = Inr strasse_object"
  by (simp add: HumaneData_init_def strasse_data_def strasse_object_def data_habits_def
      data_entries_def mk_habit_def)

section \<open>What the merge returns\<close>

lemma mergeable_returns:
  "mergeable self t srcs \<Longrightarrow> \<exists>result. merge_habits self t srcs = Inr result"
  unfolding mergeable_def by (blast intro: merge_habits_total)

lemma mergeable_merge_data: "mergeable merge_data ''tgu'' [''tgu-l'', ''tgu-r'']"
  by (simp add: mergeable_def merge_data_def MERGE_TEST_DATA_def data_entries_def
      data_habits_def mk_habit_def mk_entry_def)

lemma mergeable_dup_object: "mergeable dup_object ''tgu'' [''tgu'']"
  by (simp add: mergeable_def dup_object_def dup_data_def data_entries_def
      data_habits_def mk_habit_def mk_entry_def)

lemma merge_takes_max_per_date_of_result:
  assumes r: "merge_habits self t srcs = Inr result"
    and e: "e \<in> set (entries self)"
    and i: "involved t (effective_sources t srcs) e"
    and d: "date_key e = Inr d"
  shows "\<exists>pre w post.
      filter (\<lambda>x. involved t (effective_sources t srcs) x \<and> date_key x = Inr d) (entries self)
        = pre @ w # post
      \<and> (\<forall>x \<in> set pre. value_key x < value_key w)
      \<and> (\<forall>x \<in> set post. value_key x \<le> value_key w)
      \<and> (pre @ post \<noteq> [] \<longrightarrow> (\<forall>x \<in> set (pre @ w # post). value_key x \<noteq> None))
      \<and> value_key w = Max (value_key ` set (pre @ w # post))
      \<and> e_id w \<noteq> Absent
      \<and> filter (\<lambda>m. e_habitId m = Val t \<and> e_date m = Val d) (data_entries result) =
          [\<lparr>e_id = e_id w, e_habitId = Val t, e_date = Val d, e_value = store (value_key w),
            e_createdAt = store (get_or (e_createdAt w) []), e_extra = []\<rparr>]"
proof -
  let ?A = "effective_sources t srcs"
  let ?C = "filter (involved t ?A) (entries self)"
  from merge_structure [OF r] obtain G ms where
    G: "grouped norm_date ?C G" and
    dk: "\<forall>e \<in> set (entries self). involved t ?A e \<longrightarrow> date_key e = Inr (norm_date e)" and
    a: "list_all2 (emitted t) G ms" and
    re: "data_entries result = filter (\<lambda>e. \<not> involved t ?A e) (entries self) @ ms"
    by blast
  from e i have eC: "e \<in> set ?C" by simp
  from d have nd: "norm_date e = d" by (simp add: norm_date_def)
  have g: "filter (\<lambda>x. norm_date x = d) ?C =
           filter (\<lambda>x. involved t ?A x \<and> date_key x = Inr d) (entries self)"
    unfolding filter_filter
    by (rule filter_cong) (use dk in \<open>auto simp: norm_date_def\<close>)
  have hm: "\<forall>m \<in> set ms. e_habitId m = Val t"
    using a by (rule all2_emitted_habitId)
  have "filter (\<lambda>m. e_habitId m = Val t \<and> e_date m = Val d)
          (filter (\<lambda>e. \<not> involved t ?A e) (entries self)) = []"
    by (auto simp: filter_empty_conv involved_iff)
  moreover have "filter (\<lambda>m. e_habitId m = Val t \<and> e_date m = Val d) ms =
      filter (\<lambda>m. e_date m = Val d) ms"
    by (rule filter_cong) (use hm in auto)
  ultimately have f: "filter (\<lambda>m. e_habitId m = Val t \<and> e_date m = Val d) (data_entries result) =
      filter (\<lambda>m. e_date m = Val d) ms"
    unfolding re by simp
  from merged_for_date [OF G a eC nd] obtain pre w post where
      1: "filter (\<lambda>x. norm_date x = d) ?C = pre @ w # post"
      and 2: "\<forall>x \<in> set pre. value_key x < value_key w"
      and 3: "\<forall>x \<in> set post. value_key x \<le> value_key w"
      and 4: "pre @ post \<noteq> [] \<longrightarrow> (\<forall>x \<in> set (pre @ w # post). value_key x \<noteq> None)"
      and 5: "e_id w \<noteq> Absent"
      and 6: "filter (\<lambda>m. e_date m = Val d) ms =
          [\<lparr>e_id = e_id w, e_habitId = Val t, e_date = Val d, e_value = store (value_key w),
            e_createdAt = store (get_or (e_createdAt w) []), e_extra = []\<rparr>]"
    by blast
  have 7: "value_key w = Max (value_key ` set (pre @ w # post))"
    by (rule decomp_Max [OF refl 2 3])
  from 1 g have g1: "filter (\<lambda>x. involved t ?A x \<and> date_key x = Inr d) (entries self)
        = pre @ w # post" by simp
  from 6 f have f6: "filter (\<lambda>m. e_habitId m = Val t \<and> e_date m = Val d) (data_entries result) =
          [\<lparr>e_id = e_id w, e_habitId = Val t, e_date = Val d, e_value = store (value_key w),
            e_createdAt = store (get_or (e_createdAt w) []), e_extra = []\<rparr>]" by simp
  from g1 2 3 4 7 5 f6 show ?thesis by blast
qed

lemma merge_removes_source_habits_of_result:
  assumes "merge_habits self t srcs = Inr result"
  shows "data_habits result =
           filter (\<lambda>h. \<not> (\<exists>i \<in> set srcs - {t}. h_id h = Val i)) (data_habits (data self))
         \<and> (\<forall>h \<in> set (data_habits (data self)). h_id h = Val t \<longrightarrow> h \<in> set (data_habits result))
         \<and> (\<forall>srcs'. set srcs' - {t} = set srcs - {t} \<longrightarrow> merge_habits self t srcs' = Inr result)"
proof -
  from merge_structure [OF assms] have
    h: "data_habits result =
       filter (\<lambda>h. \<not> (\<exists>i \<in> effective_sources t srcs. h_id h = Val i)) (data_habits (data self))"
    by blast
  then have 1: "data_habits result =
           filter (\<lambda>h. \<not> (\<exists>i \<in> set srcs - {t}. h_id h = Val i)) (data_habits (data self))"
    by (simp add: effective_sources_def)
  have 2: "\<forall>h \<in> set (data_habits (data self)). h_id h = Val t \<longrightarrow> h \<in> set (data_habits result)"
    unfolding 1 by auto
  have 3: "\<forall>srcs'. set srcs' - {t} = set srcs - {t} \<longrightarrow> merge_habits self t srcs' = Inr result"
    using assms merge_habits_cong by metis
  from 1 2 3 show ?thesis by blast
qed

lemma merge_reassigns_habit_ids_of_result:
  assumes "merge_habits self t srcs = Inr result"
  shows "(\<forall>e \<in> set (data_entries result). \<forall>i \<in> set srcs - {t}. e_habitId e \<noteq> Val i)
         \<and> (\<exists>ms. data_entries result =
               filter (\<lambda>e. \<not> involved t (set srcs - {t}) e) (entries self) @ ms
             \<and> (\<forall>m \<in> set ms. e_habitId m = Val t)
             \<and> (\<forall>e \<in> set (entries self). \<not> involved t (set srcs - {t}) e \<longrightarrow>
                   e_habitId e \<noteq> Val t \<and> (\<forall>i \<in> set srcs - {t}. e_habitId e \<noteq> Val i)))"
proof -
  from merge_structure [OF assms] obtain G ms where
    a: "list_all2 (emitted t) G ms" and
    e: "data_entries result =
       filter (\<lambda>e. \<not> involved t (effective_sources t srcs) e) (entries self) @ ms"
    by blast
  have m: "\<forall>m \<in> set ms. e_habitId m = Val t"
    using a by (rule all2_emitted_habitId)
  have o: "\<forall>e \<in> set (entries self). \<not> involved t (set srcs - {t}) e \<longrightarrow>
                   e_habitId e \<noteq> Val t \<and> (\<forall>i \<in> set srcs - {t}. e_habitId e \<noteq> Val i)"
    by (auto simp: involved_iff)
  have e': "data_entries result = filter (\<lambda>e. \<not> involved t (set srcs - {t}) e) (entries self) @ ms"
    using e by (simp add: effective_sources_def)
  have "\<forall>e \<in> set (data_entries result). \<forall>i \<in> set srcs - {t}. e_habitId e \<noteq> Val i"
    unfolding e' using m o by auto
  with e' m o show ?thesis by blast
qed

lemma merge_frame_of_result:
  assumes "merge_habits self t srcs = Inr result"
  shows "\<exists>ms. data_entries result =
            filter (\<lambda>e. e_habitId e \<noteq> Val t \<and> (\<forall>i \<in> set srcs - {t}. e_habitId e \<noteq> Val i))
              (entries self) @ ms
          \<and> (\<forall>m \<in> set ms. e_habitId m = Val t)
          \<and> s_other result = s_other (data self)"
proof -
  from merge_structure [OF assms] obtain G ms where
    a: "list_all2 (emitted t) G ms" and
    e: "data_entries result =
       filter (\<lambda>e. \<not> involved t (effective_sources t srcs) e) (entries self) @ ms" and
    s: "s_other result = s_other (data self)"
    by blast
  have m: "\<forall>m \<in> set ms. e_habitId m = Val t"
    using a by (rule all2_emitted_habitId)
  have "(\<lambda>e. \<not> involved t (effective_sources t srcs) e) =
        (\<lambda>e::'a entry. e_habitId e \<noteq> Val t \<and> (\<forall>i \<in> set srcs - {t}. e_habitId e \<noteq> Val i))"
    by (auto simp: involved_iff effective_sources_def fun_eq_iff)
  with e m s show ?thesis by auto
qed

lemma merge_without_sources_of_result:
  assumes r: "merge_habits self t srcs = Inr result" and s: "set srcs \<subseteq> {t}"
  shows "\<exists>ms. data_entries result = filter (\<lambda>e. e_habitId e \<noteq> Val t) (entries self) @ ms
      \<and> (\<forall>m \<in> set ms. e_habitId m = Val t)
      \<and> distinct (map e_date ms)
      \<and> set (map e_date ms) =
          {Val (take 10 s) |s. \<exists>e \<in> set (entries self). e_habitId e = Val t \<and> get_or (e_date e) [] = Some s}
      \<and> (\<forall>e \<in> set (entries self). \<forall>d. e_habitId e = Val t \<and> date_key e = Inr d \<longrightarrow>
            (\<exists>pre w post.
                filter (\<lambda>x. e_habitId x = Val t \<and> date_key x = Inr d) (entries self) = pre @ w # post
              \<and> (\<forall>x \<in> set pre. value_key x < value_key w)
              \<and> (\<forall>x \<in> set post. value_key x \<le> value_key w)
              \<and> filter (\<lambda>m. e_date m = Val d) ms =
                  [\<lparr>e_id = e_id w, e_habitId = Val t, e_date = Val d, e_value = store (value_key w),
                    e_createdAt = store (get_or (e_createdAt w) []), e_extra = []\<rparr>]))
      \<and> data_habits result = data_habits (data self)"
proof -
  from s have A: "effective_sources t srcs = {}"
    by (auto simp: effective_sources_def)
  have inv: "involved t {} = (\<lambda>e::'a entry. e_habitId e = Val t)"
    by (auto simp: involved_iff fun_eq_iff)
  let ?C = "filter (\<lambda>e. e_habitId e = Val t) (entries self)"
  from merge_structure [OF r] obtain G ms where
    G: "grouped norm_date ?C G" and
    dk: "\<forall>e \<in> set (entries self). e_habitId e = Val t \<longrightarrow> date_key e = Inr (norm_date e)" and
    a: "list_all2 (emitted t) G ms" and
    re: "data_entries result = filter (\<lambda>e. e_habitId e \<noteq> Val t) (entries self) @ ms" and
    rh: "data_habits result = data_habits (data self)"
    unfolding A inv by auto
  have hm: "\<forall>m \<in> set ms. e_habitId m = Val t"
    using a by (rule all2_emitted_habitId)
  from merged_dates [OF G a] have di: "distinct (map e_date ms)"
    and se: "set (map e_date ms) = (\<lambda>e. Val (norm_date e)) ` set ?C"
    by simp_all
  have "(\<lambda>e. Val (norm_date e)) ` set ?C =
      {Val (take 10 s) |s. \<exists>e \<in> set (entries self). e_habitId e = Val t \<and> get_or (e_date e) [] = Some s}"
    (is "?L = ?R")
  proof (intro set_eqI iffI)
    fix x assume "x \<in> ?L"
    then obtain e where e: "e \<in> set (entries self)" "e_habitId e = Val t" and x: "x = Val (norm_date e)"
      by auto
    from dk e have "date_key e = Inr (norm_date e)" by simp
    from date_key_take [OF this] e x show "x \<in> ?R" by auto
  next
    fix x assume "x \<in> ?R"
    then obtain s e where e: "e \<in> set (entries self)" "e_habitId e = Val t"
      and g: "get_or (e_date e) [] = Some s" and x: "x = Val (take 10 s)"
      by auto
    from g have "norm_date e = take 10 s"
      by (simp add: norm_date_def date_key_def)
    with e x show "x \<in> ?L" by force
  qed
  with se have se': "set (map e_date ms) =
      {Val (take 10 s) |s. \<exists>e \<in> set (entries self). e_habitId e = Val t \<and> get_or (e_date e) [] = Some s}"
    by simp
  have per: "\<forall>e \<in> set (entries self). \<forall>d. e_habitId e = Val t \<and> date_key e = Inr d \<longrightarrow>
            (\<exists>pre w post.
                filter (\<lambda>x. e_habitId x = Val t \<and> date_key x = Inr d) (entries self) = pre @ w # post
              \<and> (\<forall>x \<in> set pre. value_key x < value_key w)
              \<and> (\<forall>x \<in> set post. value_key x \<le> value_key w)
              \<and> filter (\<lambda>m. e_date m = Val d) ms =
                  [\<lparr>e_id = e_id w, e_habitId = Val t, e_date = Val d, e_value = store (value_key w),
                    e_createdAt = store (get_or (e_createdAt w) []), e_extra = []\<rparr>])"
  proof (intro ballI allI impI)
    fix e d assume e: "e \<in> set (entries self)" and "e_habitId e = Val t \<and> date_key e = Inr d"
    then have h: "e_habitId e = Val t" and d: "date_key e = Inr d" by simp_all
    from e h have eC: "e \<in> set ?C" by simp
    from d have nd: "norm_date e = d" by (simp add: norm_date_def)
    have g: "filter (\<lambda>x. norm_date x = d) ?C =
           filter (\<lambda>x. e_habitId x = Val t \<and> date_key x = Inr d) (entries self)"
      unfolding filter_filter
      by (rule filter_cong) (use dk in \<open>auto simp: norm_date_def\<close>)
    from merged_for_date [OF G a eC nd] show "\<exists>pre w post.
                filter (\<lambda>x. e_habitId x = Val t \<and> date_key x = Inr d) (entries self) = pre @ w # post
              \<and> (\<forall>x \<in> set pre. value_key x < value_key w)
              \<and> (\<forall>x \<in> set post. value_key x \<le> value_key w)
              \<and> filter (\<lambda>m. e_date m = Val d) ms =
                  [\<lparr>e_id = e_id w, e_habitId = Val t, e_date = Val d, e_value = store (value_key w),
                    e_createdAt = store (get_or (e_createdAt w) []), e_extra = []\<rparr>]"
      unfolding g by blast
  qed
  from re hm di se' per rh show ?thesis by blast
qed

section \<open>Properties of the merge\<close>

text \<open>
  Claim C1. The merge returns a document on every object that is \<open>mergeable\<close>.
  Let the merge return a document, and let \<open>d\<close> be the normalised date
  (\<^verbatim>\<open>entry.get("date", "")[:10]\<close>) of an entry \<open>e\<close> of the target or of an effective source.
  The entries of the target and of the effective sources with that date are, in the
  order of the input, \<open>pre @ w # post\<close>, where the value read by
  \<^verbatim>\<open>e.get("value", 0)\<close> is smaller than that of \<open>w\<close> on \<open>pre\<close> and not greater on \<open>post\<close>:
  \<open>w\<close> is the first entry with the greatest value. The result holds exactly one entry
  of the target with the date \<open>d\<close>; it has the identifier of \<open>w\<close>, the value of \<open>w\<close>
  (0 when \<open>w\<close> has none), which is the maximum over the group, and the time of creation
  of \<open>w\<close> (the empty string when \<open>w\<close> has none). The values are compared as Python
  values; in a group of two or more entries none of them is \<^verbatim>\<open>None\<close>, so that the
  comparison is the comparison of integers.
\<close>

theorem merge_takes_max_per_date:
  "(mergeable self t srcs \<longrightarrow> (\<exists>result. merge_habits self t srcs = Inr result))
   \<and> (\<forall>result e d.
        merge_habits self t srcs = Inr result \<and> e \<in> set (entries self)
        \<and> involved t (effective_sources t srcs) e \<and> date_key e = Inr d \<longrightarrow>
        (\<exists>s. get_or (e_date e) [] = Some s \<and> d = take 10 s)
        \<and> (\<exists>pre w post.
         filter (\<lambda>x. involved t (effective_sources t srcs) x \<and> date_key x = Inr d) (entries self)
           = pre @ w # post
         \<and> (\<forall>x \<in> set pre. value_key x < value_key w)
         \<and> (\<forall>x \<in> set post. value_key x \<le> value_key w)
         \<and> (pre @ post \<noteq> [] \<longrightarrow> (\<forall>x \<in> set (pre @ w # post). value_key x \<noteq> None))
         \<and> value_key w = Max (value_key ` set (pre @ w # post))
         \<and> e_id w \<noteq> Absent
         \<and> filter (\<lambda>m. e_habitId m = Val t \<and> e_date m = Val d) (data_entries result) =
             [\<lparr>e_id = e_id w, e_habitId = Val t, e_date = Val d, e_value = store (value_key w),
               e_createdAt = store (get_or (e_createdAt w) []), e_extra = []\<rparr>]))"
  (is "_ \<and> (\<forall>result e d. ?H result e d \<longrightarrow> ?D e d \<and> ?P result d)")
proof (rule conjI)
  show "mergeable self t srcs \<longrightarrow> (\<exists>result. merge_habits self t srcs = Inr result)"
    by (blast intro: mergeable_returns)
next
  show "\<forall>result e d. ?H result e d \<longrightarrow> ?D e d \<and> ?P result d"
  proof (intro allI impI)
    fix result e d assume "?H result e d"
    then have r: "merge_habits self t srcs = Inr result" and e: "e \<in> set (entries self)"
      and i: "involved t (effective_sources t srcs) e" and d: "date_key e = Inr d"
      by simp_all
    from date_key_take [OF d] have "?D e d" .
    moreover from r e i d have "?P result d"
      by (rule merge_takes_max_per_date_of_result)
    ultimately show "?D e d \<and> ?P result d" ..
  qed
qed

text \<open>
  On the data of the tests, merging \<^verbatim>\<open>tgu-l\<close> and \<^verbatim>\<open>tgu-r\<close> into \<^verbatim>\<open>tgu\<close>: the three entries
  of 2025-11-28 have the values 5, 8 and 6, and the result has the one entry with the
  value 8 and the identifier \<^verbatim>\<open>e3\<close>.
\<close>

theorem merge_takes_max_per_date_witness:
  "mergeable merge_data ''tgu'' [''tgu-l'', ''tgu-r'']
   \<and> merge_habits merge_data ''tgu'' [''tgu-l'', ''tgu-r''] = Inr merge_result
   \<and> mk_entry ''e1'' ''tgu'' ''2025-11-28'' 5 ''2025-11-28T10:00:00Z'' \<in> set (entries merge_data)
   \<and> involved ''tgu'' (effective_sources ''tgu'' [''tgu-l'', ''tgu-r''])
         (mk_entry ''e1'' ''tgu'' ''2025-11-28'' 5 ''2025-11-28T10:00:00Z'')
   \<and> date_key (mk_entry ''e1'' ''tgu'' ''2025-11-28'' 5 ''2025-11-28T10:00:00Z'') = Inr ''2025-11-28''
   \<and> filter (\<lambda>m. e_habitId m = Val ''tgu'' \<and> e_date m = Val ''2025-11-28'')
         (data_entries merge_result) =
       [mk_entry ''e3'' ''tgu'' ''2025-11-28'' 8 ''2025-11-28T11:00:00Z'']
   \<and> (\<exists>pre w post.
         filter (\<lambda>x. involved ''tgu'' (effective_sources ''tgu'' [''tgu-l'', ''tgu-r'']) x
                    \<and> date_key x = Inr ''2025-11-28'') (entries merge_data) = pre @ w # post
         \<and> value_key w = Max (value_key ` set (pre @ w # post))
         \<and> filter (\<lambda>m. e_habitId m = Val ''tgu'' \<and> e_date m = Val ''2025-11-28'')
               (data_entries merge_result) =
             [\<lparr>e_id = e_id w, e_habitId = Val ''tgu'', e_date = Val ''2025-11-28'',
               e_value = store (value_key w),
               e_createdAt = store (get_or (e_createdAt w) []), e_extra = []\<rparr>])"
proof -
  have 1: "mk_entry ''e1'' ''tgu'' ''2025-11-28'' 5 ''2025-11-28T10:00:00Z'' \<in> set (entries merge_data)"
    by (simp add: merge_data_def MERGE_TEST_DATA_def data_entries_def)
  have 2: "involved ''tgu'' (effective_sources ''tgu'' [''tgu-l'', ''tgu-r''])
         (mk_entry ''e1'' ''tgu'' ''2025-11-28'' 5 ''2025-11-28T10:00:00Z'')"
    by (simp add: involved_def mk_entry_def)
  have 3: "date_key (mk_entry ''e1'' ''tgu'' ''2025-11-28'' 5 ''2025-11-28T10:00:00Z'') = Inr ''2025-11-28''"
    by (simp add: date_key_def mk_entry_def)
  have 4: "filter (\<lambda>m. e_habitId m = Val ''tgu'' \<and> e_date m = Val ''2025-11-28'')
         (data_entries merge_result) =
       [mk_entry ''e3'' ''tgu'' ''2025-11-28'' 8 ''2025-11-28T11:00:00Z'']"
    by (simp add: merge_result_def data_entries_def mk_entry_def)
  from merge_test 1 2 3 have h:
    "merge_habits merge_data ''tgu'' [''tgu-l'', ''tgu-r''] = Inr merge_result
     \<and> mk_entry ''e1'' ''tgu'' ''2025-11-28'' 5 ''2025-11-28T10:00:00Z'' \<in> set (entries merge_data)
     \<and> involved ''tgu'' (effective_sources ''tgu'' [''tgu-l'', ''tgu-r''])
           (mk_entry ''e1'' ''tgu'' ''2025-11-28'' 5 ''2025-11-28T10:00:00Z'')
     \<and> date_key (mk_entry ''e1'' ''tgu'' ''2025-11-28'' 5 ''2025-11-28T10:00:00Z'') = Inr ''2025-11-28''"
    by blast
  from merge_takes_max_per_date [THEN conjunct2, THEN spec, THEN spec, THEN spec, THEN mp, OF h]
  have 5: "\<exists>pre w post.
         filter (\<lambda>x. involved ''tgu'' (effective_sources ''tgu'' [''tgu-l'', ''tgu-r'']) x
                    \<and> date_key x = Inr ''2025-11-28'') (entries merge_data) = pre @ w # post
         \<and> value_key w = Max (value_key ` set (pre @ w # post))
         \<and> filter (\<lambda>m. e_habitId m = Val ''tgu'' \<and> e_date m = Val ''2025-11-28'')
               (data_entries merge_result) =
             [\<lparr>e_id = e_id w, e_habitId = Val ''tgu'', e_date = Val ''2025-11-28'',
               e_value = store (value_key w),
               e_createdAt = store (get_or (e_createdAt w) []), e_extra = []\<rparr>]"
    by blast
  from mergeable_merge_data merge_test 1 2 3 4 5 show ?thesis by blast
qed

text \<open>
  Claim C4. The merge returns a document on every object that is \<open>mergeable\<close>.
  When the merge returns a document, its habits are the habits of the input
  without those whose identifier is a source other than the target, in the order of the
  input. A habit that carries the target identifier is kept as it is. The result depends
  on the sources only through the set of sources without the target: listing the target
  among the sources changes nothing and is no error.
\<close>

theorem merge_removes_source_habits:
  "(mergeable self t srcs \<longrightarrow> (\<exists>result. merge_habits self t srcs = Inr result))
   \<and> (\<forall>result. merge_habits self t srcs = Inr result \<longrightarrow>
        (data_habits result =
                    filter (\<lambda>h. \<not> (\<exists>i \<in> set srcs - {t}. h_id h = Val i)) (data_habits (data self))
                  \<and> (\<forall>h \<in> set (data_habits (data self)). h_id h = Val t \<longrightarrow> h \<in> set (data_habits result))
                  \<and> (\<forall>srcs'. set srcs' - {t} = set srcs - {t} \<longrightarrow> merge_habits self t srcs' = Inr result)))"
proof (rule conjI)
  show "mergeable self t srcs \<longrightarrow> (\<exists>result. merge_habits self t srcs = Inr result)"
    by (blast intro: mergeable_returns)
qed (intro allI impI, erule merge_removes_source_habits_of_result)

text \<open>
  On the data of the tests the habits \<^verbatim>\<open>tgu\<close> and \<^verbatim>\<open>kb\<close> remain, and a list of sources
  that names the target gives the same document.
\<close>

theorem merge_removes_source_habits_witness:
  "mergeable merge_data ''tgu'' [''tgu-l'', ''tgu-r'']
   \<and> merge_habits merge_data ''tgu'' [''tgu-l'', ''tgu-r''] = Inr merge_result
   \<and> data_habits merge_result =
       [mk_habit ''tgu'' ''TGU'' ''fitness'' 3, mk_habit ''kb'' ''Kettlebell'' ''fitness'' 5]
   \<and> mk_habit ''tgu'' ''TGU'' ''fitness'' 3 \<in> set (data_habits merge_result)
   \<and> merge_habits merge_data ''tgu'' [''tgu'', ''tgu-r'', ''tgu-l'', ''tgu''] = Inr merge_result"
proof -
  note w = merge_removes_source_habits [THEN conjunct2, THEN spec, THEN mp, OF merge_test]
  have "set [''tgu'', ''tgu-r'', ''tgu-l'', ''tgu''] - {''tgu''} = set [''tgu-l'', ''tgu-r''] - {''tgu''}"
    by auto
  with w have "merge_habits merge_data ''tgu'' [''tgu'', ''tgu-r'', ''tgu-l'', ''tgu''] = Inr merge_result"
    by blast
  moreover have "data_habits merge_result =
       [mk_habit ''tgu'' ''TGU'' ''fitness'' 3, mk_habit ''kb'' ''Kettlebell'' ''fitness'' 5]"
    by (simp add: merge_result_def data_habits_def)
  ultimately show ?thesis using mergeable_merge_data merge_test by simp
qed

text \<open>
  Claim C3. The merge returns a document on every object that is \<open>mergeable\<close>.
  When the merge returns a document, no entry of it carries the identifier of
  an effective source (a source other than the target). The entries of the result are
  the entries of the input that are not involved in the merge, followed by the merged
  entries; every merged entry carries the target identifier, and every entry that is
  not involved carries neither the target identifier nor that of an effective source.
\<close>

theorem merge_reassigns_habit_ids:
  "(mergeable self t srcs \<longrightarrow> (\<exists>result. merge_habits self t srcs = Inr result))
   \<and> (\<forall>result. merge_habits self t srcs = Inr result \<longrightarrow>
        ((\<forall>e \<in> set (data_entries result). \<forall>i \<in> set srcs - {t}. e_habitId e \<noteq> Val i)
                  \<and> (\<exists>ms. data_entries result =
                        filter (\<lambda>e. \<not> involved t (set srcs - {t}) e) (entries self) @ ms
                      \<and> (\<forall>m \<in> set ms. e_habitId m = Val t)
                      \<and> (\<forall>e \<in> set (entries self). \<not> involved t (set srcs - {t}) e \<longrightarrow>
                            e_habitId e \<noteq> Val t \<and> (\<forall>i \<in> set srcs - {t}. e_habitId e \<noteq> Val i)))))"
proof (rule conjI)
  show "mergeable self t srcs \<longrightarrow> (\<exists>result. merge_habits self t srcs = Inr result)"
    by (blast intro: mergeable_returns)
qed (intro allI impI, erule merge_reassigns_habit_ids_of_result)

text \<open>
  On the data of the tests no entry of the result belongs to \<^verbatim>\<open>tgu-l\<close> or \<^verbatim>\<open>tgu-r\<close>.
\<close>

theorem merge_reassigns_habit_ids_witness:
  "mergeable merge_data ''tgu'' [''tgu-l'', ''tgu-r'']
   \<and> merge_habits merge_data ''tgu'' [''tgu-l'', ''tgu-r''] = Inr merge_result
   \<and> Val ''tgu-l'' \<notin> e_habitId ` set (data_entries merge_result)
   \<and> Val ''tgu-r'' \<notin> e_habitId ` set (data_entries merge_result)
   \<and> map e_habitId (data_entries merge_result) =
        [Val ''kb'', Val ''tgu'', Val ''tgu'', Val ''tgu'', Val ''tgu'']"
proof -
  note w = merge_reassigns_habit_ids [THEN conjunct2, THEN spec, THEN mp, OF merge_test]
  then have "\<forall>e \<in> set (data_entries merge_result).
      \<forall>i \<in> set [''tgu-l'', ''tgu-r''] - {''tgu''}. e_habitId e \<noteq> Val i"
    by blast
  then have "Val ''tgu-l'' \<notin> e_habitId ` set (data_entries merge_result)
      \<and> Val ''tgu-r'' \<notin> e_habitId ` set (data_entries merge_result)"
    by force
  moreover have "map e_habitId (data_entries merge_result) =
        [Val ''kb'', Val ''tgu'', Val ''tgu'', Val ''tgu'', Val ''tgu'']"
    by (simp add: merge_result_def data_entries_def mk_entry_def)
  ultimately show ?thesis using mergeable_merge_data merge_test by simp
qed

text \<open>
  Claim C5. The merge returns a document on every object that is \<open>mergeable\<close>.
  When the merge returns a document, the entries whose habit is neither the
  target nor an effective source stand in it as they are, in the order of the input and
  before every merged entry, and the top-level keys other than the two collections are
  those of the input. The merge is a function of the object: it builds a new document
  and leaves the object and its document as they are.
\<close>

theorem merge_frame:
  "(mergeable self t srcs \<longrightarrow> (\<exists>result. merge_habits self t srcs = Inr result))
   \<and> (\<forall>result. merge_habits self t srcs = Inr result \<longrightarrow>
        (\<exists>ms. data_entries result =
                     filter (\<lambda>e. e_habitId e \<noteq> Val t \<and> (\<forall>i \<in> set srcs - {t}. e_habitId e \<noteq> Val i))
                       (entries self) @ ms
                   \<and> (\<forall>m \<in> set ms. e_habitId m = Val t)
                   \<and> s_other result = s_other (data self)))"
proof (rule conjI)
  show "mergeable self t srcs \<longrightarrow> (\<exists>result. merge_habits self t srcs = Inr result)"
    by (blast intro: mergeable_returns)
qed (intro allI impI, erule merge_frame_of_result)

text \<open>
  On the data of the tests the entry of \<^verbatim>\<open>kb\<close> comes first, as it was, and the key
  \<^verbatim>\<open>version\<close> is kept.
\<close>

theorem merge_frame_witness:
  "mergeable merge_data ''tgu'' [''tgu-l'', ''tgu-r'']
   \<and> merge_habits merge_data ''tgu'' [''tgu-l'', ''tgu-r''] = Inr merge_result
   \<and> (\<exists>ms. data_entries merge_result =
          [mk_entry ''e7'' ''kb'' ''2025-11-28'' 10 ''2025-11-28T09:00:00Z''] @ ms
        \<and> (\<forall>m \<in> set ms. e_habitId m = Val ''tgu''))
   \<and> s_other merge_result = [(''version'', 1)]"
proof -
  note w = merge_frame [THEN conjunct2, THEN spec, THEN mp, OF merge_test]
  have f: "filter (\<lambda>e. e_habitId e \<noteq> Val ''tgu'' \<and>
              (\<forall>i \<in> set [''tgu-l'', ''tgu-r''] - {''tgu''}. e_habitId e \<noteq> Val i)) (entries merge_data)
         = [mk_entry ''e7'' ''kb'' ''2025-11-28'' 10 ''2025-11-28T09:00:00Z'']"
    by (simp add: merge_data_def MERGE_TEST_DATA_def data_entries_def mk_entry_def)
  have s: "s_other (data merge_data) = [(''version'', 1)]"
    by (simp add: merge_data_def MERGE_TEST_DATA_def)
  from w show ?thesis unfolding f s using mergeable_merge_data merge_test by auto
qed

text \<open>
  Claim C9. Let every source be the target itself (or let there be no source). The merge
  returns a document on every object that is \<open>mergeable\<close>. Let it return a document. The
  entries of the other habits stand in the result as
  they are, in their order, and the entries of the target come after them, rewritten:
  there is one entry for each normalised date of an entry of the target, it carries
  that date (the first 10 characters), and it is made from the first entry of the
  greatest value of that day. The habits are those of the input. The entries of the
  result are in general not those of the input, as the example after the theorem shows.
\<close>

theorem merge_without_sources:
  assumes "set srcs \<subseteq> {t}"
  shows "(mergeable self t srcs \<longrightarrow> (\<exists>result. merge_habits self t srcs = Inr result))
   \<and> (\<forall>result. merge_habits self t srcs = Inr result \<longrightarrow>
        (\<exists>ms. data_entries result = filter (\<lambda>e. e_habitId e \<noteq> Val t) (entries self) @ ms
               \<and> (\<forall>m \<in> set ms. e_habitId m = Val t)
               \<and> distinct (map e_date ms)
               \<and> set (map e_date ms) =
                   {Val (take 10 s) |s. \<exists>e \<in> set (entries self). e_habitId e = Val t \<and> get_or (e_date e) [] = Some s}
               \<and> (\<forall>e \<in> set (entries self). \<forall>d. e_habitId e = Val t \<and> date_key e = Inr d \<longrightarrow>
                     (\<exists>pre w post.
                         filter (\<lambda>x. e_habitId x = Val t \<and> date_key x = Inr d) (entries self) = pre @ w # post
                       \<and> (\<forall>x \<in> set pre. value_key x < value_key w)
                       \<and> (\<forall>x \<in> set post. value_key x \<le> value_key w)
                       \<and> filter (\<lambda>m. e_date m = Val d) ms =
                           [\<lparr>e_id = e_id w, e_habitId = Val t, e_date = Val d, e_value = store (value_key w),
                             e_createdAt = store (get_or (e_createdAt w) []), e_extra = []\<rparr>]))
               \<and> data_habits result = data_habits (data self)))"
proof (rule conjI)
  show "mergeable self t srcs \<longrightarrow> (\<exists>result. merge_habits self t srcs = Inr result)"
    by (blast intro: mergeable_returns)
qed (intro allI impI, erule merge_without_sources_of_result, rule assms)

text \<open>
  Merging \<^verbatim>\<open>tgu\<close> with itself: its two entries of one day become one entry with the
  greater value and the date cut to 10 characters, placed after the entry of \<^verbatim>\<open>kb\<close>.
\<close>

theorem merge_without_sources_witness:
  "mergeable dup_object ''tgu'' [''tgu'']
   \<and> merge_habits dup_object ''tgu'' [''tgu''] = Inr dup_result
   \<and> set [''tgu''] \<subseteq> {''tgu''}
   \<and> entries dup_object =
       [mk_entry ''a1'' ''tgu'' ''2025-11-28T08:00:00Z'' 2 ''2025-11-28T08:00:01Z'',
        mk_entry ''b1'' ''kb'' ''2025-11-28T09:00:00Z'' 10 ''2025-11-28T09:00:01Z'',
        mk_entry ''a2'' ''tgu'' ''2025-11-28T17:59:00Z'' 5 ''2025-11-28T18:00:00Z'']
   \<and> data_entries dup_result =
       [mk_entry ''b1'' ''kb'' ''2025-11-28T09:00:00Z'' 10 ''2025-11-28T09:00:01Z'',
        mk_entry ''a2'' ''tgu'' ''2025-11-28'' 5 ''2025-11-28T18:00:00Z'']
   \<and> data_entries dup_result \<noteq> entries dup_object
   \<and> (\<exists>ms. data_entries dup_result =
          filter (\<lambda>e. e_habitId e \<noteq> Val ''tgu'') (entries dup_object) @ ms
        \<and> distinct (map e_date ms)
        \<and> data_habits dup_result = data_habits (data dup_object))"
proof -
  have s: "set [''tgu''] \<subseteq> {''tgu''}" by simp
  have 1: "entries dup_object =
       [mk_entry ''a1'' ''tgu'' ''2025-11-28T08:00:00Z'' 2 ''2025-11-28T08:00:01Z'',
        mk_entry ''b1'' ''kb'' ''2025-11-28T09:00:00Z'' 10 ''2025-11-28T09:00:01Z'',
        mk_entry ''a2'' ''tgu'' ''2025-11-28T17:59:00Z'' 5 ''2025-11-28T18:00:00Z'']"
    by (simp add: dup_object_def dup_data_def data_entries_def)
  have 2: "data_entries dup_result =
       [mk_entry ''b1'' ''kb'' ''2025-11-28T09:00:00Z'' 10 ''2025-11-28T09:00:01Z'',
        mk_entry ''a2'' ''tgu'' ''2025-11-28'' 5 ''2025-11-28T18:00:00Z'']"
    by (simp add: dup_result_def data_entries_def)
  have 3: "data_entries dup_result \<noteq> entries dup_object"
    unfolding 1 2 by simp
  from merge_without_sources [OF s, THEN conjunct2, THEN spec, THEN mp, OF merge_dup] have 4: "\<exists>ms. data_entries dup_result =
          filter (\<lambda>e. e_habitId e \<noteq> Val ''tgu'') (entries dup_object) @ ms
        \<and> distinct (map e_date ms)
        \<and> data_habits dup_result = data_habits (data dup_object)"
    by blast
  from mergeable_dup_object merge_dup s 1 2 3 4 show ?thesis by blast
qed

text \<open>
  Claim C2, as the program has it. The merge is not total. It returns a document exactly
  when (1) no entry of the target or of an effective source has a null date, (2) no such
  entry that shares its normalised date with another such entry has a null value, (3)
  the first entry of the greatest value of every such date has the key \<^verbatim>\<open>id\<close>, and (4)
  every habit has the key \<^verbatim>\<open>id\<close>. When an entry of the target or of an effective source
  has a null date, it raises \<^verbatim>\<open>TypeError\<close>. When (1) and (2) hold, it returns a document
  or raises \<^verbatim>\<open>KeyError\<close>. It returns a document whenever every habit has the key \<^verbatim>\<open>id\<close>
  and every entry of the target or of an effective source has it and has no null date
  and no null value: nothing is asked of a date, a value or a time of creation that is
  missing.
\<close>

theorem merge_habits_returns_iff:
  "((\<exists>result. merge_habits self t srcs = Inr result) \<longleftrightarrow>
       (\<forall>e \<in> set (entries self). involved t (effective_sources t srcs) e \<longrightarrow> e_date e \<noteq> Null)
     \<and> (\<forall>e \<in> set (entries self). \<forall>d. involved t (effective_sources t srcs) e \<and> date_key e = Inr d
            \<and> 2 \<le> length (filter (\<lambda>x. involved t (effective_sources t srcs) x \<and> date_key x = Inr d)
                            (entries self))
            \<longrightarrow> e_value e \<noteq> Null)
     \<and> (\<forall>d pre w post.
            filter (\<lambda>x. involved t (effective_sources t srcs) x \<and> date_key x = Inr d) (entries self)
              = pre @ w # post
            \<and> (\<forall>x \<in> set pre. value_key x < value_key w)
            \<and> (\<forall>x \<in> set post. value_key x \<le> value_key w)
            \<longrightarrow> e_id w \<noteq> Absent)
     \<and> (\<forall>h \<in> set (data_habits (data self)). h_id h \<noteq> Absent))
   \<and> ((\<exists>e \<in> set (entries self). involved t (effective_sources t srcs) e \<and> e_date e = Null) \<longrightarrow>
        merge_habits self t srcs = Inl TypeError)
   \<and> ((\<forall>e \<in> set (entries self). involved t (effective_sources t srcs) e \<longrightarrow> e_date e \<noteq> Null)
      \<and> (\<forall>e \<in> set (entries self). \<forall>d. involved t (effective_sources t srcs) e \<and> date_key e = Inr d
            \<and> 2 \<le> length (filter (\<lambda>x. involved t (effective_sources t srcs) x \<and> date_key x = Inr d)
                            (entries self))
            \<longrightarrow> e_value e \<noteq> Null)
      \<longrightarrow> (\<exists>result. merge_habits self t srcs = Inr result)
          \<or> merge_habits self t srcs = Inl KeyError)
   \<and> (mergeable self t srcs \<longrightarrow> (\<exists>result. merge_habits self t srcs = Inr result))"
proof (intro conjI impI)
  show "(\<exists>result. merge_habits self t srcs = Inr result) \<longleftrightarrow>
       (\<forall>e \<in> set (entries self). involved t (effective_sources t srcs) e \<longrightarrow> e_date e \<noteq> Null)
     \<and> (\<forall>e \<in> set (entries self). \<forall>d. involved t (effective_sources t srcs) e \<and> date_key e = Inr d
            \<and> 2 \<le> length (filter (\<lambda>x. involved t (effective_sources t srcs) x \<and> date_key x = Inr d)
                            (entries self))
            \<longrightarrow> e_value e \<noteq> Null)
     \<and> (\<forall>d pre w post.
            filter (\<lambda>x. involved t (effective_sources t srcs) x \<and> date_key x = Inr d) (entries self)
              = pre @ w # post
            \<and> (\<forall>x \<in> set pre. value_key x < value_key w)
            \<and> (\<forall>x \<in> set post. value_key x \<le> value_key w)
            \<longrightarrow> e_id w \<noteq> Absent)
     \<and> (\<forall>h \<in> set (data_habits (data self)). h_id h \<noteq> Absent)"
    by (rule merge_returns_exactly)
next
  assume "\<exists>e \<in> set (entries self). involved t (effective_sources t srcs) e \<and> e_date e = Null"
  then show "merge_habits self t srcs = Inl TypeError"
    by (blast intro: merge_habits_null_date)
next
  assume "(\<forall>e \<in> set (entries self). involved t (effective_sources t srcs) e \<longrightarrow> e_date e \<noteq> Null)
      \<and> (\<forall>e \<in> set (entries self). \<forall>d. involved t (effective_sources t srcs) e \<and> date_key e = Inr d
            \<and> 2 \<le> length (filter (\<lambda>x. involved t (effective_sources t srcs) x \<and> date_key x = Inr d)
                            (entries self))
            \<longrightarrow> e_value e \<noteq> Null)"
  then show "(\<exists>result. merge_habits self t srcs = Inr result)
          \<or> merge_habits self t srcs = Inl KeyError"
    using merge_habits_KeyError [of self t srcs] by blast
next
  assume "mergeable self t srcs"
  then show "\<exists>result. merge_habits self t srcs = Inr result"
    by (rule mergeable_returns)
qed

text \<open>
  A document whose entries lack dates, values and times of creation fulfils the
  conditions, and the merge returns the defaults: the empty date, the value 0 and the
  empty time of creation. The entry of \<^verbatim>\<open>kb\<close>, which has no identifier, is not involved.
  A document whose entry of the target has a null date makes the merge raise
  \<^verbatim>\<open>TypeError\<close>. On a document whose only entry has a date and a value and no identifier,
  (1) and (2) hold and (3) fails, so the merge raises \<^verbatim>\<open>KeyError\<close>.
\<close>

theorem merge_habits_returns_iff_witness:
  "(\<exists>result. merge_habits sparse_object ''tgu'' [''tgu-l''] = Inr result)
   \<and> merge_habits sparse_object ''tgu'' [''tgu-l''] = Inr sparse_result
   \<and> data_entries sparse_result =
       [\<lparr>e_id = Absent, e_habitId = Val ''kb'', e_date = Absent, e_value = Absent,
         e_createdAt = Absent, e_extra = []\<rparr>,
        mk_entry ''s2'' ''tgu'' [] 4 [],
        mk_entry ''s3'' ''tgu'' ''2025-11-28'' 0 []]
   \<and> merge_habits null_object ''tgu'' [] = Inl TypeError
   \<and> (\<nexists>result. merge_habits no_id_object ''tgu'' [] = Inr result)
   \<and> merge_habits no_id_object ''tgu'' [] = Inl KeyError"
proof -
  let ?A = "effective_sources ''tgu'' [''tgu-l'']"
  have es: "entries sparse_object = data_entries sparse_data"
    by (simp add: sparse_object_def)
  have all: "\<forall>e \<in> set (entries sparse_object). involved ''tgu'' ?A e \<longrightarrow>
      e_date e \<noteq> Null \<and> e_value e \<noteq> Null \<and> e_id e \<noteq> Absent"
    by (simp add: es sparse_data_def data_entries_def involved_def effective_sources_def)
  have D: "\<forall>e \<in> set (entries sparse_object). involved ''tgu'' ?A e \<longrightarrow> e_date e \<noteq> Null"
    using all by blast
  have V: "\<forall>e \<in> set (entries sparse_object). \<forall>d. involved ''tgu'' ?A e \<and> date_key e = Inr d
          \<and> 2 \<le> length (filter (\<lambda>x. involved ''tgu'' ?A x \<and> date_key x = Inr d)
                          (entries sparse_object))
          \<longrightarrow> e_value e \<noteq> Null"
    using all by blast
  have I: "\<forall>d pre w post.
          filter (\<lambda>x. involved ''tgu'' ?A x \<and> date_key x = Inr d) (entries sparse_object)
            = pre @ w # post
          \<and> (\<forall>x \<in> set pre. value_key x < value_key w)
          \<and> (\<forall>x \<in> set post. value_key x \<le> value_key w)
          \<longrightarrow> e_id w \<noteq> Absent"
  proof (intro allI impI)
    fix d pre w post
    assume "filter (\<lambda>x. involved ''tgu'' ?A x \<and> date_key x = Inr d) (entries sparse_object)
            = pre @ w # post
          \<and> (\<forall>x \<in> set pre. value_key x < value_key w)
          \<and> (\<forall>x \<in> set post. value_key x \<le> value_key w)"
    then have "w \<in> set (filter (\<lambda>x. involved ''tgu'' ?A x \<and> date_key x = Inr d)
        (entries sparse_object))"
      by simp
    then have "w \<in> set (entries sparse_object)" "involved ''tgu'' ?A w"
      by simp_all
    with all show "e_id w \<noteq> Absent" by blast
  qed
  have H: "\<forall>h \<in> set (data_habits (data sparse_object)). h_id h \<noteq> Absent"
    by (simp add: sparse_object_def sparse_data_def data_habits_def mk_habit_def)
  from D V I H have 1: "\<exists>result. merge_habits sparse_object ''tgu'' [''tgu-l''] = Inr result"
    using merge_habits_returns_iff [of sparse_object "''tgu''" "[''tgu-l'']", THEN conjunct1]
    by blast
  have 2: "data_entries sparse_result =
       [\<lparr>e_id = Absent, e_habitId = Val ''kb'', e_date = Absent, e_value = Absent,
         e_createdAt = Absent, e_extra = []\<rparr>,
        mk_entry ''s2'' ''tgu'' [] 4 [],
        mk_entry ''s3'' ''tgu'' ''2025-11-28'' 0 []]"
    by (simp add: sparse_result_def data_entries_def)
  have "\<exists>e \<in> set (entries null_object).
      involved ''tgu'' (effective_sources ''tgu'' []) e \<and> e_date e = Null"
    by (simp add: null_object_def null_data_def data_entries_def involved_def)
  then have 3: "merge_habits null_object ''tgu'' [] = Inl TypeError"
    using merge_habits_returns_iff [of null_object "''tgu''" "[]", THEN conjunct2, THEN conjunct1]
    by blast
  let ?B = "effective_sources ''tgu'' []"
  let ?w = "\<lparr>e_id = Absent, e_habitId = Val ''tgu'', e_date = Val ''2025-11-28'',
              e_value = Val (1::int), e_createdAt = Val ''2025-11-28T10:00:00Z'',
              e_extra = []\<rparr>"
  have en: "entries no_id_object = [?w]"
    by (simp add: no_id_object_def no_id_data_def data_entries_def)
  have Dn: "\<forall>e \<in> set (entries no_id_object). involved ''tgu'' ?B e \<longrightarrow> e_date e \<noteq> Null"
    unfolding en by simp
  have Vn: "\<forall>e \<in> set (entries no_id_object). \<forall>d. involved ''tgu'' ?B e \<and> date_key e = Inr d
          \<and> 2 \<le> length (filter (\<lambda>x. involved ''tgu'' ?B x \<and> date_key x = Inr d)
                          (entries no_id_object))
          \<longrightarrow> e_value e \<noteq> Null"
    unfolding en by simp
  have "filter (\<lambda>x. involved ''tgu'' ?B x \<and> date_key x = Inr ''2025-11-28'') (entries no_id_object)
            = [] @ ?w # []
          \<and> (\<forall>x \<in> set []. value_key x < value_key ?w)
          \<and> (\<forall>x \<in> set []. value_key x \<le> value_key ?w)
          \<and> e_id ?w = Absent"
    unfolding en by (simp add: involved_def date_key_def)
  then have nI: "\<not> (\<forall>d pre w post.
          filter (\<lambda>x. involved ''tgu'' ?B x \<and> date_key x = Inr d) (entries no_id_object)
            = pre @ w # post
          \<and> (\<forall>x \<in> set pre. value_key x < value_key w)
          \<and> (\<forall>x \<in> set post. value_key x \<le> value_key w)
          \<longrightarrow> e_id w \<noteq> Absent)"
    by blast
  have 4: "\<nexists>result. merge_habits no_id_object ''tgu'' [] = Inr result"
    using nI merge_habits_returns_iff [of no_id_object "''tgu''" "[]", THEN conjunct1]
    by blast
  have 5: "merge_habits no_id_object ''tgu'' [] = Inl KeyError"
    using Dn Vn 4
      merge_habits_returns_iff [of no_id_object "''tgu''" "[]", THEN conjunct2, THEN conjunct2,
        THEN conjunct1]
    by blast
  from 1 2 3 4 5 merge_sparse show ?thesis by blast
qed

text \<open>
  Claim C2 as the specification states it fails: the constructor returns an object for
  the document whose only entry, of the habit \<^verbatim>\<open>tgu\<close>, has a date and a value and no
  identifier, and on this object the merge into \<^verbatim>\<open>tgu\<close> raises \<^verbatim>\<open>KeyError\<close>.
\<close>

theorem merge_raises_without_id:
  "HumaneData_init no_files None (Some no_id_data) = Inr no_id_object
   \<and> merge_habits no_id_object ''tgu'' [] = Inl KeyError"
  by (simp add: init_no_id_object)
     (simp add: merge_habits_def no_id_object_def no_id_data_def
      effective_sources_def data_entries_def data_habits_def mk_habit_def
      involved_def date_key_def py_max_def value_key_def)

section \<open>Properties of the queries\<close>

text \<open>
  Claim C6. When \<^verbatim>\<open>get_category_stats\<close> returns a list, the list has one tuple for each
  category of \<^verbatim>\<open>get_categories\<close>: the names are in strictly ascending order (the
  lexicographic order of strings by character code), they are the categories of the
  habits, where a habit without the key \<^verbatim>\<open>category\<close> counts under \<^verbatim>\<open>uncategorized\<close>; the
  count of a tuple is the number of the habits of that category, its target is the sum
  of their weekly targets with a missing target read as 0, and the counts add up to the
  number of habits. The function returns exactly when no weekly target is null and the
  categories are not null for some habits and something else for others; so it returns
  for every document whose categories and targets are values or missing.
\<close>

theorem category_stats:
  "(\<forall>stats. get_category_stats self = Inr stats \<longrightarrow>
      sorted (map fst stats) \<and> distinct (map fst stats)
    \<and> set (map fst stats) =
        (\<lambda>h. get_or (h_category h) ''uncategorized'') ` set (data_habits (data self))
    \<and> (\<forall>(c, n, target) \<in> set stats.
          n = length (filter (\<lambda>h. get_or (h_category h) ''uncategorized'' = c)
                (data_habits (data self)))
        \<and> target = sum_list (map (\<lambda>h. case h_targetPerWeek h of Val v \<Rightarrow> v | _ \<Rightarrow> 0)
                (filter (\<lambda>h. get_or (h_category h) ''uncategorized'' = c)
                   (data_habits (data self)))))
    \<and> sum_list (map (\<lambda>(c, n, target). n) stats) = length (data_habits (data self)))
   \<and> ((\<exists>stats. get_category_stats self = Inr stats) \<longleftrightarrow>
        (\<forall>h \<in> set (data_habits (data self)). h_targetPerWeek h \<noteq> Null)
      \<and> ((\<exists>h \<in> set (data_habits (data self)). h_category h = Null) \<longrightarrow>
         (\<forall>h \<in> set (data_habits (data self)). h_category h = Null)))"
proof (intro conjI allI impI)
  let ?G = "get_categories self"
  let ?hs = "data_habits (data self)"
  let ?S = "sort_key fst ?G"
  note gr = get_categories_grouped [of self]
  have ck: "category_key = (\<lambda>h::'a habit. get_or (h_category h) ''uncategorized'')"
    by (simp add: category_key_def fun_eq_iff)
  have dist: "distinct (map fst ?G)"
    using gr by (simp add: grouped_def)
  fix stats assume a: "get_category_stats self = Inr stats"
  from get_category_stats_Inr [OF a] have st: "stats = map stat_of ?S"
    and nn: "\<forall>h \<in> set ?hs. h_targetPerWeek h \<noteq> Null" by simp_all
  have fs: "map fst stats = map fst ?S"
    unfolding st by (simp add: stat_of_def comp_def)
  show "sorted (map fst stats)"
    unfolding fs by simp
  show "distinct (map fst stats)"
    unfolding fs using dist by (simp add: distinct_map_sort_key)
  show "set (map fst stats) = (\<lambda>h. get_or (h_category h) ''uncategorized'') ` set ?hs"
    unfolding fs using grouped_keys [OF gr] by (simp add: ck)
  show "\<forall>(c, n, target) \<in> set stats.
          n = length (filter (\<lambda>h. get_or (h_category h) ''uncategorized'' = c) ?hs)
        \<and> target = sum_list (map (\<lambda>h. case h_targetPerWeek h of Val v \<Rightarrow> v | _ \<Rightarrow> 0)
                (filter (\<lambda>h. get_or (h_category h) ''uncategorized'' = c) ?hs))"
  proof (clarify)
    fix c n target assume "(c, n, target) \<in> set stats"
    then obtain item where i: "item \<in> set ?G" and e: "(c, n, target) = stat_of item"
      unfolding st by auto
    from e have c: "c = fst item" and n: "n = length (snd item)"
      and tg: "target = sum_list (map (\<lambda>h. the (get_or (h_targetPerWeek h) 0)) (snd item))"
      by (simp_all add: stat_of_def)
    from i c grouped_mem [OF gr, of c "snd item"] have
      sn: "snd item = filter (\<lambda>h. get_or (h_category h) ''uncategorized'' = c) ?hs"
      by (simp add: ck)
    have eq: "map (\<lambda>h. the (get_or (h_targetPerWeek h) 0)) (snd item) =
          map (\<lambda>h. case h_targetPerWeek h of Val v \<Rightarrow> v | _ \<Rightarrow> 0) (snd item)"
    proof (rule map_cong [OF refl])
      fix h assume "h \<in> set (snd item)"
      with sn have "h \<in> set ?hs" by simp
      with nn have "h_targetPerWeek h \<noteq> Null" by blast
      then show "the (get_or (h_targetPerWeek h) 0) = (case h_targetPerWeek h of Val v \<Rightarrow> v | _ \<Rightarrow> 0)"
        by (cases "h_targetPerWeek h") auto
    qed
    from tg have tg2: "target =
        sum_list (map (\<lambda>h. case h_targetPerWeek h of Val v \<Rightarrow> v | _ \<Rightarrow> 0) (snd item))"
      by (simp only: eq)
    show "n = length (filter (\<lambda>h. get_or (h_category h) ''uncategorized'' = c) ?hs)
        \<and> target = sum_list (map (\<lambda>h. case h_targetPerWeek h of Val v \<Rightarrow> v | _ \<Rightarrow> 0)
                (filter (\<lambda>h. get_or (h_category h) ''uncategorized'' = c) ?hs))"
      unfolding sn [symmetric] using n tg2 by blast
  qed
  have dG: "distinct ?G" using dist by (simp add: distinct_map)
  have "sum_list (map (\<lambda>(c, n, target). n) stats) = sum_list (map (\<lambda>item. length (snd item)) ?S)"
    unfolding st by (simp add: stat_of_def comp_def)
  also have "\<dots> = sum (\<lambda>item. length (snd item)) (set ?S)"
    using dG by (intro sum_list_distinct_conv_sum_set) simp
  also have "\<dots> = sum (\<lambda>item. length (snd item)) (set ?G)"
    by simp
  also have "\<dots> = sum_list (map (\<lambda>item. length (snd item)) ?G)"
    using dG by (simp add: sum_list_distinct_conv_sum_set)
  also have "\<dots> = length ?hs"
    using gr by (rule sum_length_grouped)
  finally show "sum_list (map (\<lambda>(c, n, target). n) stats) = length ?hs" .
next
  show "(\<exists>stats. get_category_stats self = Inr stats) \<longleftrightarrow>
        (\<forall>h \<in> set (data_habits (data self)). h_targetPerWeek h \<noteq> Null)
      \<and> ((\<exists>h \<in> set (data_habits (data self)). h_category h = Null) \<longrightarrow>
         (\<forall>h \<in> set (data_habits (data self)). h_category h = Null))"
    (is "?L \<longleftrightarrow> ?T \<and> ?N")
  proof
    let ?G = "get_categories self"
    let ?hs = "data_habits (data self)"
    note gr = get_categories_grouped [of self]
    have null_iff: "category_key h = None \<longleftrightarrow> h_category h = Null" for h :: "'a habit"
      by (cases "h_category h") (auto simp: category_key_def)
    assume ?L
    then obtain stats where a: "get_category_stats self = Inr stats" by blast
    from get_category_stats_Inr [OF a] have
      n: "None \<in> fst ` set ?G \<longrightarrow> length ?G \<le> 1" and T: ?T by simp_all
    have N: ?N
    proof (intro impI ballI)
      fix h assume "\<exists>h \<in> set ?hs. h_category h = Null" and h: "h \<in> set ?hs"
      then have "None \<in> category_key ` set ?hs" using null_iff by force
      then have "None \<in> set (map fst ?G)" using grouped_keys [OF gr] by simp
      with n have l: "length (map fst ?G) \<le> 1" by simp
      from h have "category_key h \<in> set (map fst ?G)" using grouped_keys [OF gr] by simp
      with \<open>None \<in> set (map fst ?G)\<close> l have "category_key h = None"
        by (cases "map fst ?G") auto
      then show "h_category h = Null" using null_iff by simp
    qed
    from T N show "?T \<and> ?N" by simp
  next
    assume "?T \<and> ?N"
    then show ?L using get_category_stats_total by blast
  qed
qed

text \<open>
  The statistics of the data of the tests, and of a document with a habit that has
  neither category nor weekly target.
\<close>

theorem category_stats_witness:
  "get_category_stats sparse_object =
     Inr [(Some ''fitness'', 1, 3), (Some ''uncategorized'', 1, 0)]
   \<and> get_category_stats test_fixture = Inr [(Some ''fitness'', 2, 8), (Some ''wellness'', 1, 7)]
   \<and> sorted (map fst [(Some ''fitness'', 1::nat, 3::int), (Some ''uncategorized'', 1, 0)])
   \<and> sum_list (map (\<lambda>(c, n, target). n)
         [(Some ''fitness'', 1::nat, 3::int), (Some ''uncategorized'', 1, 0)]) =
       length (data_habits (data sparse_object))
   \<and> (\<exists>stats. get_category_stats sparse_object = Inr stats)"
proof -
  note w = category_stats [of sparse_object]
  from w stats_sparse have
    "sorted (map fst [(Some ''fitness'', 1::nat, 3::int), (Some ''uncategorized'', 1, 0)])"
    by blast
  moreover from w stats_sparse have
    "sum_list (map (\<lambda>(c, n, target). n)
         [(Some ''fitness'', 1::nat, 3::int), (Some ''uncategorized'', 1, 0)]) =
       length (data_habits (data sparse_object))"
    by blast
  moreover have "\<forall>h \<in> set (data_habits (data sparse_object)).
      h_targetPerWeek h \<noteq> Null \<and> h_category h \<noteq> Null"
    by (simp add: sparse_object_def sparse_data_def data_habits_def mk_habit_def)
  with w have "\<exists>stats. get_category_stats sparse_object = Inr stats"
    by blast
  ultimately show ?thesis using stats_sparse stats_test by blast
qed

text \<open>
  Claim C8. The search lower-cases the pattern and the names with \<^verbatim>\<open>str.lower\<close> and looks
  for the one in the other. The upper-case form of the name with the sharp s is
  \<^verbatim>\<open>STRASSE\<close>, whose lower-case form \<^verbatim>\<open>strasse\<close> is not a part of the name, which
  \<^verbatim>\<open>str.lower\<close> leaves as it is: the pattern spelled as the name finds the habit, and the
  same pattern in capitals finds nothing. A name and a pattern that differ in the case
  of an accented letter do find each other.
\<close>

theorem find_by_name_sharp_s:
  "HumaneData_init no_files None (Some strasse_data) = Inr strasse_object
   \<and> find_habits_by_name strasse_object strasse = Inr [mk_habit ''h1'' strasse ''places'' 1]
   \<and> find_habits_by_name strasse_object ''STRASSE'' = Inr []
   \<and> find_habits_by_name strasse_object cafe_lower =
       Inr [mk_habit ''h2'' cafe_upper ''places'' 1]
   \<and> find_habits_by_name strasse_object cafe_upper =
       Inr [mk_habit ''h2'' cafe_upper ''places'' 1]"
proof -
  have 1: "find_habits_by_name strasse_object strasse = Inr [mk_habit ''h1'' strasse ''places'' 1]"
    by (simp add: find_habits_by_name_def strasse_object_def strasse_data_def data_habits_def
        mk_habit_def strasse_def cafe_upper_def lower_def lower_char_def char_of_def
        bit_Suc_0_iff)
  have 2: "find_habits_by_name strasse_object ''STRASSE'' = Inr []"
    by (simp add: find_habits_by_name_def strasse_object_def strasse_data_def data_habits_def
        mk_habit_def strasse_def cafe_upper_def lower_def lower_char_def char_of_def
        bit_Suc_0_iff)
  have 3: "find_habits_by_name strasse_object cafe_lower =
       Inr [mk_habit ''h2'' cafe_upper ''places'' 1]"
    by (simp add: find_habits_by_name_def strasse_object_def strasse_data_def data_habits_def
        mk_habit_def strasse_def cafe_upper_def cafe_lower_def lower_def lower_char_def
        char_of_def bit_Suc_0_iff)
  have 4: "find_habits_by_name strasse_object cafe_upper =
       Inr [mk_habit ''h2'' cafe_upper ''places'' 1]"
    by (simp add: find_habits_by_name_def strasse_object_def strasse_data_def data_habits_def
        mk_habit_def strasse_def cafe_upper_def lower_def lower_char_def char_of_def
        bit_Suc_0_iff)
  from init_strasse_object [of no_files] 1 2 3 4 show ?thesis by blast
qed

text \<open>
  Claim C10. Let the constructor return an object. The queries that walk the list of
  habits take every habit of the list, so two habits with one identifier count twice:
  each group of \<^verbatim>\<open>get_categories\<close> is the list of all habits of its category and the
  groups together have as many habits as the list, \<^verbatim>\<open>get_habits_by_category\<close> gives all
  habits of the category, and the counts of \<^verbatim>\<open>get_category_stats\<close> add up to the length of
  the list. The index keeps, for an identifier, the last habit of the list that has it,
  and \<^verbatim>\<open>get_habit_name\<close> gives the name of that habit. \<^verbatim>\<open>get_entries_for_habit\<close> depends on
  the identifier alone: it gives the entries of the document with that \<^verbatim>\<open>habitId\<close>, once
  each.
\<close>

theorem duplicate_ids:
  assumes "HumaneData_init load_file filepath dat = Inr self"
  shows "(\<forall>(c, hs) \<in> set (get_categories self).
            hs = filter (\<lambda>h. get_or (h_category h) ''uncategorized'' = c) (data_habits (data self)))
    \<and> sum_list (map (\<lambda>(c, hs). length hs) (get_categories self)) = length (data_habits (data self))
    \<and> get_habits_by_category self category =
        filter (\<lambda>h. h_category h = Val category) (data_habits (data self))
    \<and> (\<forall>stats. get_category_stats self = Inr stats \<longrightarrow>
          sum_list (map (\<lambda>(c, n, target). n) stats) = length (data_habits (data self)))
    \<and> habits self (Some habit_id) =
        (if filter (\<lambda>h. h_id h = Val habit_id) (data_habits (data self)) = [] then None
         else Some (last (filter (\<lambda>h. h_id h = Val habit_id) (data_habits (data self)))))
    \<and> get_habit_name self habit_id =
        (if filter (\<lambda>h. h_id h = Val habit_id) (data_habits (data self)) = [] then Some ''Unknown''
         else get_or (h_name (last (filter (\<lambda>h. h_id h = Val habit_id) (data_habits (data self)))))
                ''Unknown'')
    \<and> get_entries_for_habit self habit_id =
        filter (\<lambda>e. e_habitId e = Val habit_id) (data_entries (data self))"
proof -
  let ?hs = "data_habits (data self)"
  note gr = get_categories_grouped [of self]
  have ck: "category_key = (\<lambda>h::'a habit. get_or (h_category h) ''uncategorized'')"
    by (simp add: category_key_def fun_eq_iff)
  have 1: "\<forall>(c, hs) \<in> set (get_categories self).
            hs = filter (\<lambda>h. get_or (h_category h) ''uncategorized'' = c) ?hs"
    using grouped_mem [OF gr] by (auto simp: ck)
  have "sum_list (map (\<lambda>item. length (snd item)) (get_categories self)) = length ?hs"
    using gr by (rule sum_length_grouped)
  then have 2: "sum_list (map (\<lambda>(c, hs). length hs) (get_categories self)) = length ?hs"
    by (simp add: case_prod_unfold)
  have gn: "get_none f = Some v \<longleftrightarrow> f = Val v" for f :: "string field" and v
    by (cases f) auto
  have 3: "get_habits_by_category self category = filter (\<lambda>h. h_category h = Val category) ?hs"
    by (simp add: get_habits_by_category_def gn)
  have 4: "\<forall>stats. get_category_stats self = Inr stats \<longrightarrow>
          sum_list (map (\<lambda>(c, n, target). n) stats) = length ?hs"
  proof (intro allI impI)
    fix stats assume a: "get_category_stats self = Inr stats"
    from get_category_stats_Inr [OF a] have st: "stats = map stat_of (sort_key fst (get_categories self))"
      by simp
    have dG: "distinct (get_categories self)"
      using gr by (simp add: grouped_def distinct_map)
    have "sum_list (map (\<lambda>(c, n, target). n) stats)
        = sum_list (map (\<lambda>item. length (snd item)) (sort_key fst (get_categories self)))"
      unfolding st by (simp add: stat_of_def comp_def)
    also have "\<dots> = sum (\<lambda>item. length (snd item)) (set (sort_key fst (get_categories self)))"
      using dG by (intro sum_list_distinct_conv_sum_set) simp
    also have "\<dots> = sum_list (map (\<lambda>item. length (snd item)) (get_categories self))"
      using dG by (simp add: sum_list_distinct_conv_sum_set)
    also have "\<dots> = length ?hs"
      using gr by (rule sum_length_grouped)
    finally show "sum_list (map (\<lambda>(c, n, target). n) stats) = length ?hs" .
  qed
  from init_Inr [OF assms] have e: "entries self = data_entries (data self)"
    and 5: "habits self (Some habit_id) =
        (if filter (\<lambda>h. h_id h = Val habit_id) ?hs = [] then None
         else Some (last (filter (\<lambda>h. h_id h = Val habit_id) ?hs)))"
    by simp_all
  have 6: "get_habit_name self habit_id =
        (if filter (\<lambda>h. h_id h = Val habit_id) ?hs = [] then Some ''Unknown''
         else get_or (h_name (last (filter (\<lambda>h. h_id h = Val habit_id) ?hs))) ''Unknown'')"
    unfolding get_habit_name_def 5 by simp
  have 7: "get_entries_for_habit self habit_id =
        filter (\<lambda>e. e_habitId e = Val habit_id) (data_entries (data self))"
    by (simp add: get_entries_for_habit_def e gn)
  from 1 2 3 4 5 6 7 show ?thesis by blast
qed

text \<open>
  A document with the habits \<^verbatim>\<open>First\<close> and \<^verbatim>\<open>Second\<close> under the identifier \<^verbatim>\<open>x\<close>: both are
  counted in the category, and the name looked up for \<^verbatim>\<open>x\<close> is \<^verbatim>\<open>Second\<close>.
\<close>

theorem duplicate_ids_witness:
  "HumaneData_init no_files None (Some twice_data) = Inr twice_object
   \<and> get_categories twice_object =
       [(Some ''fitness'', [mk_habit ''x'' ''First'' ''fitness'' 1, mk_habit ''x'' ''Second'' ''fitness'' 2]),
        (Some ''wellness'', [mk_habit ''y'' ''Other'' ''wellness'' 4])]
   \<and> get_habits_by_category twice_object ''fitness'' =
       [mk_habit ''x'' ''First'' ''fitness'' 1, mk_habit ''x'' ''Second'' ''fitness'' 2]
   \<and> get_category_stats twice_object = Inr [(Some ''fitness'', 2, 3), (Some ''wellness'', 1, 4)]
   \<and> habits twice_object (Some ''x'') = Some (mk_habit ''x'' ''Second'' ''fitness'' 2)
   \<and> get_habit_name twice_object ''x'' = Some ''Second''
   \<and> get_entries_for_habit twice_object ''x'' =
       [mk_entry ''e1'' ''x'' ''2025-11-28'' 1 ''2025-11-28T10:00:00Z'']"
proof -
  note w = duplicate_ids [OF init_twice_object [of no_files]]
  have hs: "data_habits (data twice_object) =
      [mk_habit ''x'' ''First'' ''fitness'' 1, mk_habit ''y'' ''Other'' ''wellness'' 4,
       mk_habit ''x'' ''Second'' ''fitness'' 2]"
    by (simp add: twice_object_def twice_data_def data_habits_def)
  have es: "data_entries (data twice_object) =
      [mk_entry ''e1'' ''x'' ''2025-11-28'' 1 ''2025-11-28T10:00:00Z'',
       mk_entry ''e2'' ''y'' ''2025-11-28'' 1 ''2025-11-28T11:00:00Z'']"
    by (simp add: twice_object_def twice_data_def data_entries_def)
  have 1: "get_categories twice_object =
       [(Some ''fitness'', [mk_habit ''x'' ''First'' ''fitness'' 1, mk_habit ''x'' ''Second'' ''fitness'' 2]),
        (Some ''wellness'', [mk_habit ''y'' ''Other'' ''wellness'' 4])]"
    by (simp add: get_categories_def hs) (simp add: mk_habit_def)
  from w [of "''fitness''" "''x''"] have 2: "get_habits_by_category twice_object ''fitness'' =
       [mk_habit ''x'' ''First'' ''fitness'' 1, mk_habit ''x'' ''Second'' ''fitness'' 2]"
    unfolding hs by (simp add: mk_habit_def)
  have 3: "get_category_stats twice_object = Inr [(Some ''fitness'', 2, 3), (Some ''wellness'', 1, 4)]"
    by (simp add: get_category_stats_def 1 py_sorted_items_def mk_habit_def)
  from w [of "''fitness''" "''x''"] have 4:
    "habits twice_object (Some ''x'') = Some (mk_habit ''x'' ''Second'' ''fitness'' 2)"
    unfolding hs by (simp add: mk_habit_def)
  from w [of "''fitness''" "''x''"] have 5: "get_habit_name twice_object ''x'' = Some ''Second''"
    unfolding hs by (simp add: mk_habit_def)
  from w [of "''fitness''" "''x''"] have 6: "get_entries_for_habit twice_object ''x'' =
       [mk_entry ''e1'' ''x'' ''2025-11-28'' 1 ''2025-11-28T10:00:00Z'']"
    unfolding es by (simp add: mk_entry_def)
  from init_twice_object [of no_files] 1 2 3 4 5 6 show ?thesis by blast
qed

section \<open>Errors\<close>

text \<open>
  Claim C7, as the program has it. Without a document and without a file path (none, or
  the empty one) the constructor raises \<^verbatim>\<open>ValueError\<close> and no object exists. With a
  document whose habits all have the key \<^verbatim>\<open>id\<close> it returns an object. On an object
  that the constructor has returned:

    \<^item> \<^verbatim>\<open>get_category_stats\<close> returns when no weekly target is null and the categories are
      all null or none of them is null, and raises \<^verbatim>\<open>TypeError\<close> otherwise;

    \<^item> \<^verbatim>\<open>find_habits_by_name\<close> returns when no name is null, and raises \<^verbatim>\<open>AttributeError\<close>
      otherwise;

    \<^item> \<^verbatim>\<open>merge_habits\<close> returns when every entry of the target or of an effective source
      has the key \<^verbatim>\<open>id\<close>, no null date and no null value, and raises \<^verbatim>\<open>TypeError\<close> when
      one of these entries has a null date.

  None of these conditions asks for a name, a category, a weekly target, a date, a
  value or a time of creation to be present.
\<close>

theorem loaded_operations_total:
  "HumaneData_init load_file None None = Inl ValueError
   \<and> HumaneData_init load_file (Some []) None = Inl ValueError
   \<and> ((\<forall>h \<in> set (data_habits d). h_id h \<noteq> Absent) \<longrightarrow>
        (\<exists>self. HumaneData_init load_file filepath (Some d) = Inr self))
   \<and> (HumaneData_init load_file filepath dat = Inr self \<longrightarrow>
        (if (\<forall>h \<in> set (data_habits (data self)). h_targetPerWeek h \<noteq> Null)
            \<and> ((\<exists>h \<in> set (data_habits (data self)). h_category h = Null) \<longrightarrow>
               (\<forall>h \<in> set (data_habits (data self)). h_category h = Null))
         then \<exists>stats. get_category_stats self = Inr stats
         else get_category_stats self = Inl TypeError)
      \<and> (if \<forall>h \<in> set (data_habits (data self)). h_name h \<noteq> Null
         then \<exists>found. find_habits_by_name self pattern = Inr found
         else find_habits_by_name self pattern = Inl AttributeError)
      \<and> ((\<forall>e \<in> set (entries self). involved t (effective_sources t srcs) e \<longrightarrow>
              e_date e \<noteq> Null \<and> e_value e \<noteq> Null \<and> e_id e \<noteq> Absent)
          \<longrightarrow> (\<exists>result. merge_habits self t srcs = Inr result))
      \<and> ((\<exists>e \<in> set (entries self). involved t (effective_sources t srcs) e \<and> e_date e = Null)
          \<longrightarrow> merge_habits self t srcs = Inl TypeError))"
proof (intro conjI impI)
  show "HumaneData_init load_file None None = Inl ValueError"
    by (simp add: HumaneData_init_def)
  show "HumaneData_init load_file (Some []) None = Inl ValueError"
    by (simp add: HumaneData_init_def)
next
  assume "\<forall>h \<in> set (data_habits d). h_id h \<noteq> Absent"
  from build_index_total [OF this, of Map.empty]
  show "\<exists>self. HumaneData_init load_file filepath (Some d) = Inr self"
    by (auto simp: HumaneData_init_def)
next
  show "if (\<forall>h \<in> set (data_habits (data self)). h_targetPerWeek h \<noteq> Null)
            \<and> ((\<exists>h \<in> set (data_habits (data self)). h_category h = Null) \<longrightarrow>
               (\<forall>h \<in> set (data_habits (data self)). h_category h = Null))
         then \<exists>stats. get_category_stats self = Inr stats
         else get_category_stats self = Inl TypeError"
  proof (cases "get_category_stats self")
    case (Inl err)
    with get_category_stats_error have "get_category_stats self = Inl TypeError" by blast
    then show ?thesis
      using get_category_stats_returns_iff [of self] by auto
  next
    case (Inr stats)
    then show ?thesis
      using get_category_stats_returns_iff [of self] by auto
  qed
next
  show "if \<forall>h \<in> set (data_habits (data self)). h_name h \<noteq> Null
         then \<exists>found. find_habits_by_name self pattern = Inr found
         else find_habits_by_name self pattern = Inl AttributeError"
  proof (cases "find_habits_by_name self pattern")
    case (Inl err)
    with find_habits_by_name_error have "find_habits_by_name self pattern = Inl AttributeError"
      by blast
    then show ?thesis
      using find_habits_by_name_filter [of self pattern, THEN conjunct2, THEN conjunct1]
      by auto
  next
    case (Inr found)
    then show ?thesis
      using find_habits_by_name_filter [of self pattern, THEN conjunct2, THEN conjunct1]
      by auto
  qed
next
  assume a: "HumaneData_init load_file filepath dat = Inr self"
    and i: "\<forall>e \<in> set (entries self). involved t (effective_sources t srcs) e \<longrightarrow>
              e_date e \<noteq> Null \<and> e_value e \<noteq> Null \<and> e_id e \<noteq> Absent"
  from a init_Inr have h: "\<forall>h \<in> set (data_habits (data self)). h_id h \<noteq> Absent"
    by blast
  from merge_habits_total [OF i h] show "\<exists>result. merge_habits self t srcs = Inr result" .
next
  assume "\<exists>e \<in> set (entries self). involved t (effective_sources t srcs) e \<and> e_date e = Null"
  then show "merge_habits self t srcs = Inl TypeError"
    by (blast intro: merge_habits_null_date)
qed

text \<open>
  The document whose entries and habits lack fields: the constructor, the statistics,
  the search and the merge all return. The document with a null name, a null weekly
  target and a null date in an entry of the target: the constructor returns, and the
  three raise.
\<close>

theorem loaded_operations_total_witness:
  "HumaneData_init no_files None None = Inl ValueError
   \<and> HumaneData_init no_files None (Some sparse_data) = Inr sparse_object
   \<and> (\<exists>stats. get_category_stats sparse_object = Inr stats)
   \<and> (\<exists>found. find_habits_by_name sparse_object ''tgu'' = Inr found)
   \<and> (\<exists>result. merge_habits sparse_object ''tgu'' [''tgu-l''] = Inr result)
   \<and> HumaneData_init no_files None (Some null_data) = Inr null_object
   \<and> get_category_stats null_object = Inl TypeError
   \<and> find_habits_by_name null_object ''tgu'' = Inl AttributeError
   \<and> merge_habits null_object ''tgu'' [] = Inl TypeError"
proof -
  note w = loaded_operations_total [of no_files sparse_data "None" "Some sparse_data"
      sparse_object "''tgu''" "''tgu''" "[''tgu-l'']"]
  have t: "\<forall>h \<in> set (data_habits (data sparse_object)). h_targetPerWeek h \<noteq> Null"
    by (simp add: sparse_object_def sparse_data_def data_habits_def mk_habit_def)
  have c: "\<not> (\<exists>h \<in> set (data_habits (data sparse_object)). h_category h = Null)"
    by (simp add: sparse_object_def sparse_data_def data_habits_def mk_habit_def)
  have n: "\<forall>h \<in> set (data_habits (data sparse_object)). h_name h \<noteq> Null"
    by (simp add: sparse_object_def sparse_data_def data_habits_def mk_habit_def)
  have i: "\<forall>e \<in> set (entries sparse_object).
      involved ''tgu'' (effective_sources ''tgu'' [''tgu-l'']) e \<longrightarrow>
        e_date e \<noteq> Null \<and> e_value e \<noteq> Null \<and> e_id e \<noteq> Absent"
    by (simp add: sparse_object_def sparse_data_def data_entries_def involved_def
        effective_sources_def)
  note s = init_sparse_object [of no_files]
  from w s have 0: "HumaneData_init no_files None None = Inl ValueError" by blast
  from w s t c have 1: "\<exists>stats. get_category_stats sparse_object = Inr stats" by simp
  from w s n have 2: "\<exists>found. find_habits_by_name sparse_object ''tgu'' = Inr found" by simp
  from w s i have 3: "\<exists>result. merge_habits sparse_object ''tgu'' [''tgu-l''] = Inr result"
    by blast
  note v = loaded_operations_total [of no_files null_data "None" "Some null_data"
      null_object "''tgu''" "''tgu''" "[]"]
  note z = init_null_object [of no_files]
  have nt: "\<not> (\<forall>h \<in> set (data_habits (data null_object)). h_targetPerWeek h \<noteq> Null)"
    by (simp add: null_object_def null_data_def data_habits_def)
  have nn: "\<not> (\<forall>h \<in> set (data_habits (data null_object)). h_name h \<noteq> Null)"
    by (simp add: null_object_def null_data_def data_habits_def)
  have nd: "\<exists>e \<in> set (entries null_object).
      involved ''tgu'' (effective_sources ''tgu'' []) e \<and> e_date e = Null"
    by (simp add: null_object_def null_data_def data_entries_def involved_def)
  from v z nt have 4: "get_category_stats null_object = Inl TypeError" by simp
  from v z nn have 5: "find_habits_by_name null_object ''tgu'' = Inl AttributeError" by simp
  from v z nd have 6: "merge_habits null_object ''tgu'' [] = Inl TypeError" by blast
  from 0 s 1 2 3 z 4 5 6 show ?thesis by blast
qed

text \<open>
  Claim C7 as the specification states it fails for a malformed field. The constructor
  returns an object for the document whose one habit \<^verbatim>\<open>tgu\<close> has a null name and a null
  weekly target and whose one entry, of \<^verbatim>\<open>tgu\<close>, has a null date. On this object the
  merge into \<^verbatim>\<open>tgu\<close> raises \<^verbatim>\<open>TypeError\<close>, \<^verbatim>\<open>get_category_stats\<close> raises \<^verbatim>\<open>TypeError\<close> and
  \<^verbatim>\<open>find_habits_by_name\<close> raises \<^verbatim>\<open>AttributeError\<close>: the null fields are not replaced by
  the defaults.
\<close>

theorem null_fields_raise:
  "HumaneData_init no_files None (Some null_data) = Inr null_object
   \<and> merge_habits null_object ''tgu'' [] = Inl TypeError
   \<and> get_category_stats null_object = Inl TypeError
   \<and> find_habits_by_name null_object ''tgu'' = Inl AttributeError"
proof -
  have 1: "merge_habits null_object ''tgu'' [] = Inl TypeError"
    by (simp add: merge_habits_def null_object_def null_data_def effective_sources_def
        data_entries_def involved_def date_key_def)
  have 2: "get_category_stats null_object = Inl TypeError"
    by (simp add: get_category_stats_def get_categories_def null_object_def null_data_def
        data_habits_def py_sorted_items_def)
  have 3: "find_habits_by_name null_object ''tgu'' = Inl AttributeError"
    by (simp add: find_habits_by_name_def null_object_def null_data_def data_habits_def)
  from init_null_object [of no_files] 1 2 3 show ?thesis by blast
qed

end
